theory Spec2Isabelle
  imports Complex_Main "HOL-Library.AList"
begin

section \<open>Python values and errors\<close>

text \<open>
  The values that reach \<open>deserialize_pks\<close>: what a caller passes and what
  \<open>json.load\<close>/\<open>json.loads\<close> produce. Python lists and tuples are both \<open>PList\<close>
  (the source treats them alike, and JSON writes a tuple as a list). A finite
  float is represented by the exact rational it denotes; the infinities and NaN,
  which a caller can pass and \<open>json.load\<close> reads from \<open>Infinity\<close>, \<open>-Infinity\<close> and
  \<open>NaN\<close>, are values of their own.
\<close>

datatype pyfloat = Finite rat | PosInf | NegInf | NaN

datatype pyval =
    PInt int
  | PBool bool
  | PFloat pyfloat
  | PList "pyval list"
  | PStr string
  | PNone
  | PDict "(string \<times> pyval) list"

datatype error =
    ValueError
  | TypeError
  | JSONDecodeError
  | NameError string
  | AssertionError
  | IntegrityError
  | MultipleResultsFound
  | UnmappedInstanceError
  | TaskError string
  | OverflowError
  | OperationalError

datatype log_msg =
    ForcingInteger pyfloat
  | TaskException string
  | BulkIntegrity
  | BulkException
  | NotSaved
  | Saved nat
  | CreatingTable

section \<open>Serialising and deserialising primary keys\<close>

text \<open>
  The file system as \<open>deserialize_pks\<close> sees it: a path does not exist (\<open>None\<close>),
  or holds text that is not JSON (\<open>Some None\<close>), or holds a JSON document.
\<close>

type_synonym fsys = "string \<Rightarrow> pyval option option"

text \<open>
  Python's \<open>int(x)\<close> on a float: a finite float is truncated towards zero, an
  infinity raises \<open>OverflowError\<close> and NaN raises \<open>ValueError\<close>.
\<close>

fun py_int :: "pyfloat \<Rightarrow> error + int" where
  "py_int (Finite q) = Inr (if 0 \<le> q then \<lfloor>q\<rfloor> else \<lceil>q\<rceil>)"
| "py_int PosInf = Inl OverflowError"
| "py_int NegInf = Inl OverflowError"
| "py_int NaN = Inl ValueError"

text \<open>\<open>pk.replace("'", '"')\<close>\<close>

definition replace_quotes :: "string \<Rightarrow> string" where
  "replace_quotes s = map (\<lambda>c. if c = CHR 0x27 then CHR 0x22 else c) s"

text \<open>
  What \<open>map(deserialize_pks, contents)\<close> iterates over: the items of a list, the
  characters of a string, the keys of a dict; anything else is not iterable.
\<close>

fun py_iter :: "pyval \<Rightarrow> error + pyval list" where
  "py_iter (PList xs) = Inr xs"
| "py_iter (PStr s) = Inr (map (\<lambda>c. PStr [c]) s)"
| "py_iter (PDict kvs) = Inr (map (\<lambda>kv. PStr (fst kv)) kvs)"
| "py_iter v = Inl TypeError"

text \<open>
  Modelled from the spec: \<open>astra.utils.flatten\<close> is imported by the source but is
  not part of it. The spec says that deserialisation "recursively flattens nested
  lists" into "a flat list of integers"; this is that function.
\<close>

fun flatten :: "pyval \<Rightarrow> pyval list" where
  "flatten (PList xs) = concat (map flatten xs)"
| "flatten v = [v]"

text \<open>
  \<open>deserialize_pks\<close> recurses through files that may name further files, so the
  recursion is bounded by the depth of the call stack: the first argument is the
  number of nested calls still allowed, and \<open>None\<close> is its exhaustion. A value
  that is returned comes with the warnings logged on the way; where an
  exception is raised the result is the exception alone, also for the float
  whose warning is logged just before \<open>int(pk)\<close> raises.
\<close>

fun deserialize_pks ::
    "nat \<Rightarrow> fsys \<Rightarrow> (string \<Rightarrow> pyval option) \<Rightarrow> pyval \<Rightarrow> bool
      \<Rightarrow> (error + pyval \<times> log_msg list) option"
  and deserialize_each ::
    "nat \<Rightarrow> fsys \<Rightarrow> (string \<Rightarrow> pyval option) \<Rightarrow> pyval list
      \<Rightarrow> (error + pyval list \<times> log_msg list) option"
where
  "deserialize_pks 0 fs loads pk fl = None"
| "deserialize_pks (Suc n) fs loads pk fl =
     (let r =
        (case pk of
           PInt i \<Rightarrow> Some (Inr (pk, []))
         | PBool b \<Rightarrow> Some (Inr (pk, []))
         | PFloat q \<Rightarrow>
             (case py_int q of
                Inl e \<Rightarrow> Some (Inl e)
              | Inr i \<Rightarrow> Some (Inr (PInt i, [ForcingInteger q])))
         | PList xs \<Rightarrow>
             (case deserialize_each n fs loads xs of
                None \<Rightarrow> None
              | Some (Inl e) \<Rightarrow> Some (Inl e)
              | Some (Inr (vs, w)) \<Rightarrow> Some (Inr (PList vs, w)))
         | PStr s \<Rightarrow>
             (case (case fs s of
                      Some None \<Rightarrow> Inl JSONDecodeError
                    | Some (Some c) \<Rightarrow> Inr c
                    | None \<Rightarrow>
                        (case loads (replace_quotes s) of
                           None \<Rightarrow> Inl ValueError
                         | Some c \<Rightarrow> Inr c)) of
                Inl e \<Rightarrow> Some (Inl e)
              | Inr contents \<Rightarrow>
                  (case py_iter contents of
                     Inl e \<Rightarrow> Some (Inl e)
                   | Inr xs \<Rightarrow>
                       (case deserialize_each n fs loads xs of
                          None \<Rightarrow> None
                        | Some (Inl e) \<Rightarrow> Some (Inl e)
                        | Some (Inr (vs, w)) \<Rightarrow> Some (Inr (PList vs, w)))))
         | _ \<Rightarrow> Some (Inl ValueError))
      in case r of
           Some (Inr (v, w)) \<Rightarrow>
             Some (Inr (if fl then PList (flatten (PList [v])) else v, w))
         | _ \<Rightarrow> r)"
| "deserialize_each n fs loads [] = Some (Inr ([], []))"
| "deserialize_each n fs loads (x # xs) =
     (case deserialize_pks n fs loads x False of
        None \<Rightarrow> None
      | Some (Inl e) \<Rightarrow> Some (Inl e)
      | Some (Inr (v, w)) \<Rightarrow>
          (case deserialize_each n fs loads xs of
             None \<Rightarrow> None
           | Some (Inl e) \<Rightarrow> Some (Inl e)
           | Some (Inr (vs, ws)) \<Rightarrow> Some (Inr (v # vs, w @ ws))))"

text \<open>
  \<open>serialize_pks_to_path\<close>: \<open>mktemp\<close> picks the path (the second argument), and the
  file then holds the JSON document of \<open>pks\<close>.
\<close>

definition serialize_pks_to_path :: "fsys \<Rightarrow> string \<Rightarrow> pyval \<Rightarrow> string \<times> fsys" where
  "serialize_pks_to_path fs path pks = (path, fs(path := Some (Some pks)))"

text \<open>
  Vocabulary for stating the round trip: a nested list of integers, its nesting
  depth, and the integers it holds, left to right.
\<close>

fun int_nest :: "pyval \<Rightarrow> bool" where
  "int_nest (PInt i) = True"
| "int_nest (PList xs) = list_all int_nest xs"
| "int_nest v = False"

fun depth :: "pyval \<Rightarrow> nat" where
  "depth (PList xs) = Suc (fold max (map depth xs) 0)"
| "depth v = 0"

fun ints_of :: "pyval \<Rightarrow> int list" where
  "ints_of (PInt i) = [i]"
| "ints_of (PList xs) = concat (map ints_of xs)"
| "ints_of v = []"

definition each_result ::
    "(error + pyval list \<times> log_msg list) option \<Rightarrow> (error + pyval \<times> log_msg list) option" where
  "each_result r = map_option (map_sum id (\<lambda>(vs, w). (PList vs, w))) r"

definition fs_example :: fsys where
  "fs_example = (\<lambda>p. if p = ''/tmp/a'' then Some (Some (PList [PInt 7, PFloat (Finite 2)])) else
                      if p = ''/tmp/b'' then Some (Some (PInt 5)) else None)"

definition loads_example :: "string \<Rightarrow> pyval option" where
  "loads_example = (\<lambda>s. if s = ''[8]'' then Some (PList [PInt 8]) else
                         if s = ''5'' then Some (PInt 5) else None)"

text \<open>
  A literal written with single quotes, \<open>['/tmp/a', 8]\<close>, the same with double
  quotes, and a \<open>json.loads\<close> that parses the second and not the first.
\<close>

definition single_quoted :: string where
  "single_quoted = ''['' @ [CHR 0x27] @ ''/tmp/a'' @ [CHR 0x27] @ '', 8]''"

definition double_quoted :: string where
  "double_quoted = ''['' @ [CHR 0x22] @ ''/tmp/a'' @ [CHR 0x22] @ '', 8]''"

definition loads_quoted :: "string \<Rightarrow> pyval option" where
  "loads_quoted = (\<lambda>s. if s = double_quoted then Some (PList [PStr ''/tmp/a'', PInt 8])
                        else None)"

section \<open>The relational store\<close>

text \<open>
  The tables of \<open>astradb\<close> that \<open>astra/database/utils.py\<close> reads and writes, as
  lists of rows in insertion order. The table declarations are not part of the
  source; the columns are those the source names. The field \<open>pk\<close> of
  \<open>Parameter\<close> is \<open>p_pk\<close> here and that of \<open>TaskInstance\<close> is \<open>t_pk\<close>.
\<close>

record parameter =
  p_pk :: int
  parameter_name :: string
  parameter_value :: string

record task_instance =
  t_pk :: int
  dag_id :: string
  task_id :: string
  run_id :: "string option"
  output_pk :: "int option"

record task_instance_parameter =
  ti_pk :: int
  parameter_pk :: int

text \<open>A row of a result table: the keyword arguments the model was built from.\<close>

type_synonym fields = "(string \<times> pyval) list"

text \<open>The committed writes, oldest first.\<close>

datatype db_write =
    WParameter int
  | WTaskInstance int
  | WLink int int
  | WUnlink int int
  | WOutputInterface int
  | WOutputRecord string fields
  | WSetOutput int int

record store =
  parameters :: "parameter list"
  task_instances :: "task_instance list"
  links :: "task_instance_parameter list"
  output_interfaces :: "int list"
  outputs :: "(string \<times> fields) list"
  next_parameter_pk :: int
  next_ti_pk :: int
  next_output_pk :: int
  journal :: "db_write list"

definition empty_store :: store where
  "empty_store = \<lparr>parameters = [], task_instances = [], links = [],
     output_interfaces = [], outputs = [],
     next_parameter_pk = 1, next_ti_pk = 1, next_output_pk = 1, journal = []\<rparr>"

text \<open>SQLAlchemy's \<open>Query.one_or_none()\<close>.\<close>

fun one_or_none :: "'a list \<Rightarrow> error + 'a option" where
  "one_or_none [] = Inr None"
| "one_or_none [x] = Inr (Some x)"
| "one_or_none (x # y # zs) = Inl MultipleResultsFound"

text \<open>
  \<open>serialize\<close>: a string passes through, anything else goes to \<open>json.dumps\<close>, whose
  exception is logged and raised again. \<open>json.dumps\<close> is the parameter \<open>dumps\<close>,
  \<open>None\<close> where it raises.
\<close>

definition serialize :: "(pyval \<Rightarrow> string option) \<Rightarrow> pyval \<Rightarrow> error + string" where
  "serialize dumps v =
     (case v of
        PStr s \<Rightarrow> Inr s
      | _ \<Rightarrow> (case dumps v of None \<Rightarrow> Inl TypeError | Some s \<Rightarrow> Inr s))"

text \<open>\<open>session.query(astradb.Parameter).filter_by(**kwds)\<close>\<close>

definition query_parameter :: "store \<Rightarrow> string \<Rightarrow> string \<Rightarrow> parameter list" where
  "query_parameter s name sv =
     filter (\<lambda>p. parameter_name p = name \<and> parameter_value p = sv) (parameters s)"

text \<open>
  Modelled from the spec: the declaration of the \<open>parameter\<close> table is not part of
  the source. The spec says "at most one row exists for a given (name,
  serialized-value) pair", and the source catches the \<open>IntegrityError\<close> of the
  insert: adding a row whose pair is already there raises it, and otherwise the
  row gets the next primary key.
\<close>

definition add_parameter :: "store \<Rightarrow> string \<Rightarrow> string \<Rightarrow> error + parameter \<times> store" where
  "add_parameter s name sv =
     (if query_parameter s name sv \<noteq> [] then Inl IntegrityError
      else
        (let instance = \<lparr>p_pk = next_parameter_pk s, parameter_name = name,
                           parameter_value = sv\<rparr>
         in Inr (instance,
                 s\<lparr>parameters := parameters s @ [instance],
                   next_parameter_pk := next_parameter_pk s + 1,
                   journal := journal s @ [WParameter (p_pk instance)]\<rparr>)))"

text \<open>
  \<open>get_or_create_parameter_pk\<close>. The argument \<open>others\<close> is what the other sessions
  commit between this call's lookup and its insert; a call that runs alone has
  the identity there. The flag \<open>create\<close> is fixed by the first lookup.
\<close>

definition get_or_create_parameter_pk ::
    "(pyval \<Rightarrow> string option) \<Rightarrow> (store \<Rightarrow> store) \<Rightarrow> store \<Rightarrow> string \<Rightarrow> pyval
      \<Rightarrow> (error + int \<times> bool) \<times> store" where
  "get_or_create_parameter_pk dumps others s name v =
     (case serialize dumps v of
        Inl e \<Rightarrow> (Inl e, s)
      | Inr sv \<Rightarrow>
          (case one_or_none (query_parameter s name sv) of
             Inl e \<Rightarrow> (Inl e, s)
           | Inr (Some instance) \<Rightarrow> (Inr (p_pk instance, False), s)
           | Inr None \<Rightarrow>
               (let s1 = others s in
                case add_parameter s1 name sv of
                  Inr (instance, s2) \<Rightarrow> (Inr (p_pk instance, True), s2)
                | Inl e \<Rightarrow>
                    (case one_or_none (query_parameter s1 name sv) of
                       Inl e' \<Rightarrow> (Inl e', s1)
                     | Inr None \<Rightarrow> (Inl e, s1)
                     | Inr (Some instance) \<Rightarrow> (Inr (p_pk instance, True), s1)))))"

text \<open>\<open>with session.begin(): session.add(ti)\<close>\<close>

definition add_task_instance ::
    "store \<Rightarrow> string \<Rightarrow> string \<Rightarrow> string option \<Rightarrow> task_instance \<times> store" where
  "add_task_instance s dag task run =
     (let ti = \<lparr>t_pk = next_ti_pk s, dag_id = dag, task_id = task, run_id = run,
                 output_pk = None\<rparr>
      in (ti, s\<lparr>task_instances := task_instances s @ [ti],
                next_ti_pk := next_ti_pk s + 1,
                journal := journal s @ [WTaskInstance (t_pk ti)]\<rparr>))"

definition add_link :: "store \<Rightarrow> int \<Rightarrow> int \<Rightarrow> store" where
  "add_link s t p =
     s\<lparr>links := links s @ [\<lparr>ti_pk = t, parameter_pk = p\<rparr>],
       journal := journal s @ [WLink t p]\<rparr>"

text \<open>
  The loop of \<open>create_task_instance\<close> that links the parameters. \<open>parameter_pks\<close>
  is a generator, so each \<open>get_or_create_parameter_pk\<close> runs inside this loop,
  just before its link is added.
\<close>

fun link_parameters ::
    "(pyval \<Rightarrow> string option) \<Rightarrow> store \<Rightarrow> int \<Rightarrow> (string \<times> pyval) list \<Rightarrow> error + store" where
  "link_parameters dumps s t [] = Inr s"
| "link_parameters dumps s t ((k, v) # kvs) =
     (case get_or_create_parameter_pk dumps (\<lambda>s. s) s k v of
        (Inl e, s') \<Rightarrow> Inl e
      | (Inr (p, created), s') \<Rightarrow> link_parameters dumps (add_link s' t p) t kvs)"

text \<open>
  \<open>create_task_instance\<close>. The instance is committed by the first transaction;
  an exception in the second one rolls the links and the parameters of that
  transaction back and leaves the instance. \<open>parameters\<close> is a dict: an
  association list in insertion order, \<open>None\<close> when the argument is left out.
\<close>

definition create_task_instance ::
    "(pyval \<Rightarrow> string option) \<Rightarrow> store \<Rightarrow> string \<Rightarrow> string \<Rightarrow> string option
      \<Rightarrow> (string \<times> pyval) list option \<Rightarrow> (error + task_instance) \<times> store" where
  "create_task_instance dumps s dag task run params =
     (let kvs = (case params of None \<Rightarrow> [] | Some d \<Rightarrow> d);
          (ti, s1) = add_task_instance s dag task run
      in case link_parameters dumps s1 (t_pk ti) kvs of
           Inl e \<Rightarrow> (Inl e, s1)
         | Inr s2 \<Rightarrow> (Inr ti, s2))"

text \<open>
  \<open>get_or_create_task_instance\<close>. The call of \<open>get_task_instance\<close> is commented
  out in the source and \<open>instance\<close> is \<open>None\<close>.
\<close>

definition get_or_create_task_instance ::
    "(pyval \<Rightarrow> string option) \<Rightarrow> store \<Rightarrow> string \<Rightarrow> string \<Rightarrow> string option
      \<Rightarrow> (string \<times> pyval) list option \<Rightarrow> (error + task_instance) \<times> store" where
  "get_or_create_task_instance dumps s dag task run params =
     (let kvs = (case params of None \<Rightarrow> [] | Some d \<Rightarrow> d);
          instance = (None :: task_instance option)
      in case instance of
           None \<Rightarrow> create_task_instance dumps s dag task run (Some kvs)
         | Some i \<Rightarrow> (Inr i, s))"

text \<open>
  The pairs \<open>(k, serialize(v))\<close> that the filter of \<open>get_task_instance\<close> is built
  from; the first value that does not serialise raises.
\<close>

fun serialize_items ::
    "(pyval \<Rightarrow> string option) \<Rightarrow> (string \<times> pyval) list \<Rightarrow> error + (string \<times> string) list" where
  "serialize_items dumps [] = Inr []"
| "serialize_items dumps ((k, v) # kvs) =
     (case serialize dumps v of
        Inl e \<Rightarrow> Inl e
      | Inr sv \<Rightarrow>
          (case serialize_items dumps kvs of
             Inl e \<Rightarrow> Inl e
           | Inr r \<Rightarrow> Inr ((k, sv) # r)))"

text \<open>
  \<open>q_p\<close>: the primary keys of the \<open>Parameter\<close> rows whose name and value are one
  of the given pairs, one per row. For an empty dict the disjunction is empty
  and selects no row here; SQLAlchemy versions that drop an empty \<open>or_()\<close> from
  the query select every row instead, and \<open>get_task_instance\<close> returns \<open>None\<close>
  either way, since no group of link rows counts 0 distinct parameters.
\<close>

definition q_p :: "store \<Rightarrow> (string \<times> string) list \<Rightarrow> int list" where
  "q_p s sps =
     map p_pk
       (filter (\<lambda>p. list_ex (\<lambda>(k, sv). parameter_name p = k \<and> parameter_value p = sv) sps)
          (parameters s))"

text \<open>\<open>count(distinct(parameter_pk))\<close> over the link rows of one task instance.\<close>

definition count_distinct :: "task_instance_parameter list \<Rightarrow> int \<Rightarrow> nat" where
  "count_distinct rows t =
     length (remdups (map parameter_pk (filter (\<lambda>l. ti_pk l = t) rows)))"

text \<open>
  The first subquery: the link rows whose parameter is in \<open>q_p\<close>, grouped by
  task instance, keeping the groups that hold \<open>N_p\<close> distinct parameters.
\<close>

definition sq_all :: "store \<Rightarrow> int list \<Rightarrow> int list" where
  "sq_all s pks =
     (let rows = filter (\<lambda>l. parameter_pk l \<in> set pks) (links s)
      in filter (\<lambda>t. count_distinct rows t = length pks) (remdups (map ti_pk rows)))"

text \<open>
  The second subquery: all link rows joined to the first subquery, grouped by
  task instance, keeping the groups that hold \<open>len(parameters)\<close> distinct
  parameters.
\<close>

definition sq_exact :: "store \<Rightarrow> int list \<Rightarrow> nat \<Rightarrow> int list" where
  "sq_exact s sq n =
     (let rows = filter (\<lambda>l. ti_pk l \<in> set sq) (links s)
      in filter (\<lambda>t. count_distinct rows t = n) (remdups (map ti_pk rows)))"

text \<open>
  The filters on \<open>dag_id\<close> and \<open>task_id\<close>, and on \<open>run_id\<close> when one is given.
\<close>

definition same_identity :: "task_instance \<Rightarrow> string \<Rightarrow> string \<Rightarrow> string option \<Rightarrow> bool" where
  "same_identity t dag task run =
     (dag_id t = dag \<and> task_id t = task
      \<and> (case run of None \<Rightarrow> True | Some r \<Rightarrow> run_id t = Some r))"

text \<open>The final query, before \<open>one_or_none\<close>.\<close>

definition matching_instances ::
    "store \<Rightarrow> string \<Rightarrow> string \<Rightarrow> string option \<Rightarrow> (string \<times> string) list \<Rightarrow> task_instance list" where
  "matching_instances s dag task run sps =
     (let sq = sq_exact s (sq_all s (q_p s sps)) (length sps)
      in filter (\<lambda>t. t_pk t \<in> set sq \<and> same_identity t dag task run) (task_instances s))"

definition get_task_instance ::
    "(pyval \<Rightarrow> string option) \<Rightarrow> store \<Rightarrow> string \<Rightarrow> string \<Rightarrow> string option
      \<Rightarrow> (string \<times> pyval) list \<Rightarrow> error + task_instance option" where
  "get_task_instance dumps s dag task run kvs =
     (case serialize_items dumps kvs of
        Inl e \<Rightarrow> Inl e
      | Inr sps \<Rightarrow>
          (let N_p = length (q_p s sps) in
           if N_p < length kvs then Inr None
           else one_or_none (matching_instances s dag task run sps)))"

text \<open>
  Modelled from the spec: the property \<open>TaskInstance.parameters\<close> is declared with
  the table, outside the source. The spec calls it the effective parameter map:
  "exactly the set of Parameter rows joined to it", a dict from name to value.
\<close>

definition instance_parameters :: "store \<Rightarrow> task_instance \<Rightarrow> (string \<times> string) list" where
  "instance_parameters s ti =
     concat (map (\<lambda>l. map (\<lambda>p. (parameter_name p, parameter_value p))
                        (filter (\<lambda>p. p_pk p = parameter_pk l) (parameters s)))
               (filter (\<lambda>l. ti_pk l = t_pk ti) (links s)))"

text \<open>\<open>d[key]\<close> on the dict built from a list of items: the last item of a key wins.\<close>

definition dict_get :: "(string \<times> 'v) list \<Rightarrow> string \<Rightarrow> 'v option" where
  "dict_get items key = map_of (rev items) key"

text \<open>\<open>session.delete\<close> of a link row.\<close>

definition delete_link :: "store \<Rightarrow> task_instance_parameter \<Rightarrow> store" where
  "delete_link s l =
     s\<lparr>links := remove1 l (links s),
       journal := journal s @ [WUnlink (ti_pk l) (parameter_pk l)]\<rparr>"

text \<open>
  \<open>del_task_instance_parameter\<close>. A key that is not in the parameters takes the
  \<open>except KeyError\<close> branch; \<open>session.delete(None)\<close> raises; the final \<open>assert\<close>
  is checked on every path.
\<close>

definition del_task_instance_parameter ::
    "(pyval \<Rightarrow> string option) \<Rightarrow> store \<Rightarrow> task_instance \<Rightarrow> string \<Rightarrow> (error + bool) \<times> store" where
  "del_task_instance_parameter dumps s ti key =
     (let r =
        (case dict_get (instance_parameters s ti) key of
           None \<Rightarrow> (Inr (), s)
         | Some v \<Rightarrow>
             (case get_or_create_parameter_pk dumps (\<lambda>s. s) s key (PStr v) of
                (Inl e, s1) \<Rightarrow> (Inl e, s1)
              | (Inr (p, created), s1) \<Rightarrow>
                  (case one_or_none
                          (filter (\<lambda>l. ti_pk l = t_pk ti \<and> parameter_pk l = p) (links s1)) of
                     Inl e \<Rightarrow> (Inl e, s1)
                   | Inr None \<Rightarrow> (Inl UnmappedInstanceError, s1)
                   | Inr (Some l) \<Rightarrow> (Inr (), delete_link s1 l))))
      in case r of
           (Inl e, s') \<Rightarrow> (Inl e, s')
         | (Inr u, s') \<Rightarrow>
             (if dict_get (instance_parameters s' ti) key \<noteq> None
              then (Inl AssertionError, s')
              else (Inr True, s')))"

text \<open>The first argument of \<open>create_task_output\<close>: a task instance or a primary key.\<close>

datatype instance_or_pk = Instance task_instance | Pk int

definition add_output_interface :: "store \<Rightarrow> int \<times> store" where
  "add_output_interface s =
     (next_output_pk s,
      s\<lparr>output_interfaces := output_interfaces s @ [next_output_pk s],
        next_output_pk := next_output_pk s + 1,
        journal := journal s @ [WOutputInterface (next_output_pk s)]\<rparr>)"

text \<open>\<open>kwds.update(kwargs)\<close>\<close>

definition dict_update :: "fields \<Rightarrow> fields \<Rightarrow> fields" where
  "dict_update kwds kwargs = fold (\<lambda>(k, v) d. AList.update k v d) kwargs kwds"

definition add_output :: "store \<Rightarrow> string \<Rightarrow> fields \<Rightarrow> store" where
  "add_output s model kwds =
     s\<lparr>outputs := outputs s @ [(model, kwds)],
       journal := journal s @ [WOutputRecord model kwds]\<rparr>"

definition set_output_pk :: "store \<Rightarrow> int \<Rightarrow> int \<Rightarrow> store" where
  "set_output_pk s t out =
     s\<lparr>task_instances :=
         map (\<lambda>ti. if t_pk ti = t then ti\<lparr>output_pk := Some out\<rparr> else ti) (task_instances s),
       journal := journal s @ [WSetOutput t out]\<rparr>"

text \<open>
  \<open>create_task_output\<close>. Where the primary key resolves to no task instance the
  source builds its message from \<open>task_instance_pk\<close>, a name that is bound nowhere,
  so the \<open>raise\<close> statement ends in \<open>NameError\<close>. The result table is named by
  \<open>model\<close>. The two \<open>assert\<close>s hold after the commits before them.
\<close>

definition create_task_output ::
    "store \<Rightarrow> instance_or_pk \<Rightarrow> string \<Rightarrow> fields \<Rightarrow> (error + string \<times> fields) \<times> store" where
  "create_task_output s task_instance_or_pk model kwargs =
     (case (case task_instance_or_pk of
              Instance ti \<Rightarrow> Inr ti
            | Pk pk \<Rightarrow>
                (case one_or_none (filter (\<lambda>t. t_pk t = pk) (task_instances s)) of
                   Inl e \<Rightarrow> Inl e
                 | Inr None \<Rightarrow> Inl (NameError ''task_instance_pk'')
                 | Inr (Some ti) \<Rightarrow> Inr ti)) of
        Inl e \<Rightarrow> (Inl e, s)
      | Inr task_instance \<Rightarrow>
          (let (out, s1) = add_output_interface s;
               kwds = dict_update
                        [(''ti_pk'', PInt (t_pk task_instance)), (''output_pk'', PInt out)]
                        kwargs;
               s2 = add_output s1 model kwds;
               s3 = set_output_pk s2 (t_pk task_instance) out
           in (Inr (model, kwds), s3)))"

text \<open>
  Vocabulary for the statements below: which task instance an argument of
  \<open>create_task_output\<close> refers to, the uniqueness of (name, value) among the
  \<open>Parameter\<close> rows, and a \<open>json.dumps\<close> that writes the one integer the examples use.
\<close>

definition refers_to :: "instance_or_pk \<Rightarrow> int \<Rightarrow> bool" where
  "refers_to r pk = (case r of Instance i \<Rightarrow> t_pk i = pk | Pk k \<Rightarrow> k = pk)"

definition unique_parameters :: "store \<Rightarrow> bool" where
  "unique_parameters s =
     distinct (map (\<lambda>p. (parameter_name p, parameter_value p)) (parameters s))"

definition linked_pks :: "store \<Rightarrow> int \<Rightarrow> int list" where
  "linked_pks s t = map parameter_pk (filter (\<lambda>l. ti_pk l = t) (links s))"

definition dumps_example :: "pyval \<Rightarrow> string option" where
  "dumps_example v = (if v = PInt 59000 then Some ''59000'' else None)"

definition store_example :: store where
  "store_example =
     snd (get_or_create_task_instance dumps_example empty_store ''ingest'' ''classify''
            (Some ''r1'') (Some [(''release'', PStr ''sdss5''), (''mjd'', PInt 59000)]))"

definition store_example2 :: store where
  "store_example2 =
     snd (get_or_create_task_instance dumps_example store_example ''ingest'' ''classify''
            (Some ''r1'') (Some [(''mjd'', PInt 59000), (''release'', PStr ''sdss5'')]))"

section \<open>The checkpointed task runner and the batch writer\<close>

text \<open>
  A result record of a task: the primary key it has once the database assigned
  one, whether it has unsaved fields (peewee's \<open>is_dirty()\<close>), and its field values.
\<close>

record 'a result =
  ident :: "int option"
  dirty :: bool
  data :: 'a

text \<open>
  The peewee database behind \<open>astra.models.base\<close>, which is not part of the
  source: whether it is one of the SQLite classes, whether the table of the
  model exists, the rows of that table with their primary keys, and the next
  key. What an \<open>INSERT\<close> raises is the parameter \<open>rejects\<close> of the functions below,
  from the rows present and the new data: \<open>None\<close>, or \<open>IntegrityError\<close>, or another
  exception.
\<close>

record 'a database =
  sqlite :: bool
  table_exists :: bool
  table :: "(int \<times> 'a) list"
  next_id :: int

type_synonym 'a rejects = "(int \<times> 'a) list \<Rightarrow> 'a \<Rightarrow> error option"

definition insert_row :: "'a rejects \<Rightarrow> 'a database \<Rightarrow> 'a \<Rightarrow> error + int \<times> 'a database" where
  "insert_row rejects db d =
     (case rejects (table db) d of
        Some e \<Rightarrow> Inl e
      | None \<Rightarrow> Inr (next_id db,
                     db\<lparr>table := table db @ [(next_id db, d)], next_id := next_id db + 1\<rparr>))"

text \<open>\<open>model.create(**_result.__data__)\<close>: a saved copy of the record.\<close>

definition model_create ::
    "'a rejects \<Rightarrow> 'a database \<Rightarrow> 'a result \<Rightarrow> error + 'a result \<times> 'a database" where
  "model_create rejects db r =
     (case insert_row rejects db (data r) of
        Inl e \<Rightarrow> Inl e
      | Inr (i, db') \<Rightarrow> Inr (\<lparr>ident = Some i, dirty = False, data = data r\<rparr>, db'))"

text \<open>
  peewee's \<open>chunked(it, n)\<close>: groups of \<open>n\<close> items, the last one shorter; no group at
  all when \<open>n\<close> is 0.
\<close>

function chunked :: "'b list \<Rightarrow> nat \<Rightarrow> 'b list list" where
  "chunked xs n = (if n = 0 \<or> xs = [] then [] else take n xs # chunked (drop n xs) n)"
  by pat_completeness auto
termination
  by (relation "measure (\<lambda>(xs, n). length xs)") auto

declare chunked.simps [simp del]

text \<open>
  The body of the SQLite loop over one group of \<open>batch_commit\<close>: the items come
  with their index from \<open>enumerate\<close>, and a dirty one is replaced in \<open>results\<close> by
  its saved copy. An exception leaves the loop.
\<close>

fun create_dirty ::
    "'a rejects \<Rightarrow> 'a database \<Rightarrow> 'a result list \<Rightarrow> (nat \<times> 'a result) list
      \<Rightarrow> error option \<times> 'a result list \<times> 'a database" where
  "create_dirty rejects db results [] = (None, results, db)"
| "create_dirty rejects db results ((i, r) # irs) =
     (if dirty r then
        (case model_create rejects db r of
           Inl e \<Rightarrow> (Some e, results, db)
         | Inr (r', db') \<Rightarrow> create_dirty rejects db' (results[i := r']) irs)
      else create_dirty rejects db results irs)"

text \<open>
  \<open>database.batch_commit\<close>: each group runs in its own transaction, so an
  exception undoes the rows of the group it is raised in and keeps the groups
  before it. The records already replaced in \<open>results\<close> stay replaced.
\<close>

fun batch_commit ::
    "'a rejects \<Rightarrow> 'a database \<Rightarrow> 'a result list \<Rightarrow> (nat \<times> 'a result) list list
      \<Rightarrow> error option \<times> 'a result list \<times> 'a database" where
  "batch_commit rejects db results [] = (None, results, db)"
| "batch_commit rejects db results (g # gs) =
     (case create_dirty rejects db results g of
        (Some e, results', db') \<Rightarrow> (Some e, results', db)
      | (None, results', db') \<Rightarrow> batch_commit rejects db' results' gs)"

text \<open>\<open>insert_many\<close> of one batch: the keys of the new rows, or the exception.\<close>

fun insert_many ::
    "'a rejects \<Rightarrow> 'a database \<Rightarrow> 'a list \<Rightarrow> error + int list \<times> 'a database" where
  "insert_many rejects db [] = Inr ([], db)"
| "insert_many rejects db (d # ds) =
     (case insert_row rejects db d of
        Inl e \<Rightarrow> Inl e
      | Inr (i, db') \<Rightarrow>
          (case insert_many rejects db' ds of
             Inl e \<Rightarrow> Inl e
           | Inr (is, db'') \<Rightarrow> Inr (i # is, db'')))"

text \<open>The returned keys are set on the records of the batch.\<close>

fun set_ids :: "'a result list \<Rightarrow> (nat \<times> int) list \<Rightarrow> 'a result list" where
  "set_ids results [] = results"
| "set_ids results ((i, k) # iks) = set_ids (results[i := (results ! i)\<lparr>ident := Some k\<rparr>]) iks"

text \<open>\<open>model.bulk_create(results, batch_size)\<close>, batch by batch.\<close>

fun bulk_create ::
    "'a rejects \<Rightarrow> 'a database \<Rightarrow> 'a result list \<Rightarrow> (nat \<times> 'a result) list list
      \<Rightarrow> error option \<times> 'a result list \<times> 'a database" where
  "bulk_create rejects db results [] = (None, results, db)"
| "bulk_create rejects db results (g # gs) =
     (case insert_many rejects db (map (\<lambda>ir. data (snd ir)) g) of
        Inl e \<Rightarrow> (Some e, results, db)
      | Inr (is, db') \<Rightarrow>
          bulk_create rejects db' (set_ids results (zip (map fst g) is)) gs)"

text \<open>
  \<open>_bulk_insert\<close>. The result is the exception that leaves the function, if any,
  the list \<open>results\<close> as the function leaves it, the database, and the log
  (without the debug lines). Outside SQLite the whole \<open>bulk_create\<close> is one
  transaction.
\<close>

definition bulk_insert ::
    "'a rejects \<Rightarrow> 'a database \<Rightarrow> 'a result list \<Rightarrow> nat \<Rightarrow> bool
      \<Rightarrow> error option \<times> 'a result list \<times> 'a database \<times> log_msg list" where
  "bulk_insert rejects db results batch_size re_raise_exceptions =
     (if results = [] then (None, results, db, [])
      else
        (let (db1, l1) = (if table_exists db then (db, [])
                          else (db\<lparr>table_exists := True\<rparr>, [CreatingTable]));
             groups = chunked (enumerate 0 results) batch_size;
             (e, results', db2) =
               (if sqlite db1 then batch_commit rejects db1 results groups
                else (case bulk_create rejects db1 results groups of
                        (Some e, results', db') \<Rightarrow> (Some e, results', db1)
                      | (None, results', db') \<Rightarrow> (None, results', db')))
         in case e of
              None \<Rightarrow> (None, results', db2, l1 @ [Saved (length results')])
            | Some err \<Rightarrow>
                (if err = IntegrityError then
                   (if re_raise_exceptions then (Some err, results', db2, l1 @ [BulkIntegrity])
                    else (None, results', db2, l1 @ [BulkIntegrity, NotSaved]))
                 else
                   (if re_raise_exceptions then (Some err, results', db2, l1 @ [BulkException])
                    else (None, results', db2, l1 @ [BulkException, NotSaved])))))"

text \<open>
  One \<open>next(timer)\<close>: a record, together with the value \<open>timer.check_point\<close> has
  after it, or an exception. \<open>Timer\<close> is imported from \<open>astra.utils\<close> and is not part
  of the source; its clock and its \<open>frequency\<close> show here only as the checkpoint
  flags. The end of the list is \<open>StopIteration\<close>.
\<close>

datatype 'a pull = Record "'a result" bool | Raised string

text \<open>
  What the caller of the runner and the batch writer see, in order: a call of
  \<open>_bulk_insert\<close> with its batch, and a record yielded to the caller.
\<close>

datatype 'a event = Flushed "'a result list" | Yielded "'a result"

text \<open>
  The loop of \<open>task\<close> and the flush after it. The result is the exception that
  ends the runner, if any, the events, the database and the log.
\<close>

fun run ::
    "'a rejects \<Rightarrow> nat \<Rightarrow> bool \<Rightarrow> 'a database \<Rightarrow> 'a result list \<Rightarrow> 'a pull list
      \<Rightarrow> error option \<times> 'a event list \<times> 'a database \<times> log_msg list" where
  "run rejects batch_size re_raise db results [] =
     (case bulk_insert rejects db results batch_size re_raise of
        (Some e, results', db', l) \<Rightarrow> (Some e, [Flushed results], db', l)
      | (None, results', db', l) \<Rightarrow> (None, Flushed results # map Yielded results', db', l))"
| "run rejects batch_size re_raise db results (Raised msg # ps) =
     (if re_raise then (Some (TaskError msg), [], db, [TaskException msg])
      else (case run rejects batch_size re_raise db results ps of
              (st, ev, db', l) \<Rightarrow> (st, ev, db', TaskException msg # l)))"
| "run rejects batch_size re_raise db results (Record r check_point # ps) =
     (if check_point then
        (case bulk_insert rejects db (results @ [r]) batch_size re_raise of
           (Some e, results', db', l) \<Rightarrow> (Some e, [Flushed (results @ [r])], db', l)
         | (None, results', db', l) \<Rightarrow>
             (case run rejects batch_size re_raise db' [] ps of
                (st, ev, db'', l') \<Rightarrow>
                  (st, Flushed (results @ [r]) # map Yielded results' @ ev, db'', l @ l')))
      else run rejects batch_size re_raise db (results @ [r]) ps)"

text \<open>
  The function a task decorates: a generator function, given by what its
  generator produces, or some other callable.
\<close>

datatype 'a callable = GeneratorFunction "'a pull list" | PlainFunction

text \<open>
  \<open>task\<close>, with the keyword arguments \<open>batch_size\<close> and \<open>re_raise_exceptions\<close> as
  options; their defaults are 999 and \<open>True\<close>.
\<close>

definition task ::
    "'a rejects \<Rightarrow> 'a database \<Rightarrow> 'a callable \<Rightarrow> nat option \<Rightarrow> bool option
      \<Rightarrow> error option \<times> 'a event list \<times> 'a database \<times> log_msg list" where
  "task rejects db function batch_size re_raise_exceptions =
     (case function of
        PlainFunction \<Rightarrow> (Some TypeError, [], db, [])
      | GeneratorFunction f \<Rightarrow>
          run rejects
            (case batch_size of None \<Rightarrow> 999 | Some n \<Rightarrow> n)
            (case re_raise_exceptions of None \<Rightarrow> True | Some b \<Rightarrow> b)
            db [] f)"

text \<open>Vocabulary for the statements: the batches flushed, the records yielded and produced.\<close>

fun flushed :: "'a event list \<Rightarrow> 'a result list list" where
  "flushed [] = []"
| "flushed (Flushed b # es) = b # flushed es"
| "flushed (Yielded r # es) = flushed es"

fun yielded :: "'a event list \<Rightarrow> 'a result list" where
  "yielded [] = []"
| "yielded (Flushed b # es) = yielded es"
| "yielded (Yielded r # es) = r # yielded es"

fun produced :: "'a pull list \<Rightarrow> 'a result list" where
  "produced [] = []"
| "produced (Record r c # ps) = r # produced ps"
| "produced (Raised m # ps) = produced ps"

fun raised :: "'a pull list \<Rightarrow> string list" where
  "raised [] = []"
| "raised (Record r c # ps) = raised ps"
| "raised (Raised m # ps) = m # raised ps"

text \<open>
  Every batch handed to the writer is followed at once by its own records,
  yielded in order, and nothing is yielded otherwise.
\<close>

function flush_then_yield :: "'a event list \<Rightarrow> bool" where
  "flush_then_yield [] = True"
| "flush_then_yield (Yielded r # es) = False"
| "flush_then_yield (Flushed b # es) =
     (length b \<le> length es
      \<and> map (\<lambda>r. Yielded r) (yielded (take (length b) es)) = take (length b) es
      \<and> map data (yielded (take (length b) es)) = map data b
      \<and> flush_then_yield (drop (length b) es))"
  by pat_completeness auto
termination
  by (relation "measure length") auto

text \<open>The records pulled since the last checkpoint, when the computation is exhausted.\<close>

fun pending :: "'a result list \<Rightarrow> 'a pull list \<Rightarrow> 'a result list" where
  "pending results [] = results"
| "pending results (Raised m # ps) = pending results ps"
| "pending results (Record r c # ps) = (if c then pending [] ps else pending (results @ [r]) ps)"

text \<open>A table without constraints, and the log lines of the task's exceptions.\<close>

definition accepts_all :: "'a rejects" where
  "accepts_all rows d = None"

fun task_exceptions :: "log_msg list \<Rightarrow> string list" where
  "task_exceptions [] = []"
| "task_exceptions (TaskException m # l) = m # task_exceptions l"
| "task_exceptions (x # l) = task_exceptions l"

text \<open>An example database, a record fresh from a task, and two computations.\<close>

definition db_example :: "string database" where
  "db_example = \<lparr>sqlite = True, table_exists = False, table = [], next_id = 1\<rparr>"

definition fresh :: "'a \<Rightarrow> 'a result" where
  "fresh d = \<lparr>ident = None, dirty = True, data = d\<rparr>"

definition f_example :: "string pull list" where
  "f_example = [Record (fresh ''a'') False, Record (fresh ''b'') True, Record (fresh ''c'') False]"

definition f_raising :: "string pull list" where
  "f_raising = [Record (fresh ''a'') True, Record (fresh ''b'') False, Raised ''boom'',
                Record (fresh ''c'') False]"

definition rejects_b :: "string rejects" where
  "rejects_b rows d = (if d = ''b'' then Some IntegrityError else None)"

text \<open>
  The items of \<open>enumerate\<close>, whole or in groups, carry their own position in the
  list and the field values of the record there.
\<close>

definition items_of :: "'a result list \<Rightarrow> (nat \<times> 'a result) list \<Rightarrow> bool" where
  "items_of orig irs \<longleftrightarrow> (\<forall>(i, r) \<in> set irs. i < length orig \<and> data r = data (orig ! i))"

section \<open>Properties of primary-key (de)serialisation\<close>

lemma fold_max_ge: "(m::nat) \<le> fold max ds m"
proof (induction ds arbitrary: m)
  case Nil then show ?case by simp
next
  case (Cons a ds)
  have "m \<le> max a m" by simp
  also have "\<dots> \<le> fold max ds (max a m)" by (rule Cons.IH)
  finally show ?case by simp
qed

lemma fold_max_mem: "(d::nat) \<in> set ds \<Longrightarrow> d \<le> fold max ds m"
proof (induction ds arbitrary: m)
  case Nil then show ?case by simp
next
  case (Cons a ds)
  show ?case
  proof (cases "d = a")
    case True
    have "a \<le> max a m" by simp
    also have "\<dots> \<le> fold max ds (max a m)" by (rule fold_max_ge)
    finally show ?thesis using True by simp
  next
    case False
    with Cons show ?thesis by simp
  qed
qed

lemma depth_elem: "x \<in> set xs \<Longrightarrow> depth x < depth (PList xs)"
  using fold_max_mem[of "depth x" "map depth xs" 0] by (simp add: less_Suc_eq_le)

lemma deserialize_ints:
  "(int_nest v \<longrightarrow> depth v < n \<longrightarrow> deserialize_pks n fs loads v False = Some (Inr (v, [])))"
  "(list_all int_nest xs \<longrightarrow> (\<forall>x\<in>set xs. depth x < n) \<longrightarrow>
      deserialize_each n fs loads xs = Some (Inr (xs, [])))"
proof (induction n fs loads v False and n fs loads xs rule: deserialize_pks_deserialize_each.induct)
  case (1 fs loads pk)
  then show ?case by simp
next
  case (2 n fs loads pk)
  show ?case
  proof (cases pk)
    case (PList ys)
    show ?thesis
    proof (intro impI)
      assume a: "int_nest pk" and d: "depth pk < Suc n"
      have "\<forall>x\<in>set ys. depth x < n"
        using d depth_elem[of _ ys] PList by fastforce
      with 2 PList a have "deserialize_each n fs loads ys = Some (Inr (ys, []))" by simp
      then show "deserialize_pks (Suc n) fs loads pk False = Some (Inr (pk, []))"
        using PList by simp
    qed
  qed simp_all
next
  case (3 n fs loads)
  then show ?case by simp
next
  case (4 n fs loads x xs)
  then show ?case by simp
qed

lemma flatten_ints: "int_nest v \<Longrightarrow> flatten v = map PInt (ints_of v)"
proof (induction v rule: flatten.induct)
  case (1 xs)
  then have e: "map flatten xs = map (\<lambda>x. map PInt (ints_of x)) xs"
    by (simp add: list_all_iff)
  have "flatten (PList xs) = concat (map flatten xs)" by simp
  also have "\<dots> = concat (map (\<lambda>x. map PInt (ints_of x)) xs)" by (simp only: e)
  also have "\<dots> = map PInt (ints_of (PList xs))" by (simp add: map_concat comp_def)
  finally show ?case .
qed simp_all

lemma deserialize_str:
  "deserialize_pks (Suc n) fs loads (PStr s) False =
     (case (case fs s of
              Some None \<Rightarrow> Inl JSONDecodeError
            | Some (Some c) \<Rightarrow> Inr c
            | None \<Rightarrow> (case loads (replace_quotes s) of None \<Rightarrow> Inl ValueError | Some c \<Rightarrow> Inr c)) of
        Inl e \<Rightarrow> Some (Inl e)
      | Inr contents \<Rightarrow>
          (case py_iter contents of
             Inl e \<Rightarrow> Some (Inl e)
           | Inr xs \<Rightarrow> each_result (deserialize_each n fs loads xs)))"
  by (simp add: each_result_def split: option.splits sum.splits prod.splits)

lemma deserialize_flatten:
  "deserialize_pks (Suc n) fs loads pk True =
     (case deserialize_pks (Suc n) fs loads pk False of
        Some (Inr (v, w)) \<Rightarrow> Some (Inr (PList (flatten (PList [v])), w))
      | r \<Rightarrow> r)"
  by (cases pk) (simp_all split: option.splits sum.splits prod.splits)

lemma roundtrip:
  assumes "list_all int_nest xs" and "depth (PList xs) < n"
  shows "(case serialize_pks_to_path fs path (PList xs) of
            (p, fs') \<Rightarrow> deserialize_pks (Suc n) fs' loads (PStr p) True)
          = Some (Inr (PList (map PInt (ints_of (PList xs))), []))"
proof -
  let ?fs = "fs(path := Some (Some (PList xs)))"
  have d: "\<forall>x\<in>set xs. depth x < n"
    using assms(2) depth_elem[of _ xs] by fastforce
  have e: "deserialize_each n ?fs loads xs = Some (Inr (xs, []))"
    using deserialize_ints(2)[of xs n ?fs loads] assms(1) d by simp
  have f: "flatten (PList xs) = map PInt (ints_of (PList xs))"
    using flatten_ints[of "PList xs"] assms(1) by simp
  have "deserialize_pks (Suc n) ?fs loads (PStr path) True
          = Some (Inr (PList (flatten (PList [PList xs])), []))"
    using e by simp
  also have "flatten (PList [PList xs]) = flatten (PList xs)" by simp
  finally show ?thesis by (simp only: serialize_pks_to_path_def prod.case f)
qed

text \<open>
  Claim C5 says that a float is coerced to an integer with a warning. At the
  float infinity \<open>int(pk)\<close> raises instead: the call ends in \<open>OverflowError\<close>,
  which is neither an integer nor the \<open>ValueError\<close> of the other branches.
\<close>

theorem deserialize_float_infinity_raises:
  "deserialize_pks (Suc 0) fs_example loads_example (PFloat PosInf) False
     = Some (Inl OverflowError)"
  by simp

text \<open>
  Claim C5, amended at the non-finite floats. A nested list of integers written
  by \<open>serialize_pks_to_path\<close> and read back by \<open>deserialize_pks\<close> with
  \<open>flatten=True\<close> is the list of its integers in order, provided the call stack
  is deeper than the nesting. Deserialisation flattens a nested list of
  integers; returns an integer as it is; truncates a finite float towards zero
  and logs a warning, and raises \<open>OverflowError\<close> on an infinity and \<open>ValueError\<close>
  on NaN; reads a string naming an existing file as that file's JSON document,
  and any other string as the JSON literal that is the string with every single
  quote replaced by a double quote and every other character kept (the items
  of either document are then deserialised in turn); raises \<open>ValueError\<close> when
  that literal does not parse; and raises \<open>ValueError\<close> on \<open>None\<close> and on a dict.
\<close>

theorem deserialize_roundtrip_and_shapes:
  "(list_all int_nest xs \<and> depth (PList xs) < n \<longrightarrow>
      (case serialize_pks_to_path fs path (PList xs) of
         (p, fs') \<Rightarrow> deserialize_pks (Suc n) fs' loads (PStr p) True)
       = Some (Inr (PList (map PInt (ints_of (PList xs))), [])))
   \<and> (int_nest v \<and> depth v < Suc n \<longrightarrow>
        deserialize_pks (Suc n) fs loads v True = Some (Inr (PList (map PInt (ints_of v)), [])))
   \<and> deserialize_pks (Suc n) fs loads (PInt i) False = Some (Inr (PInt i, []))
   \<and> deserialize_pks (Suc n) fs loads (PFloat (Finite q)) False
        = Some (Inr (PInt (if 0 \<le> q then \<lfloor>q\<rfloor> else \<lceil>q\<rceil>), [ForcingInteger (Finite q)]))
   \<and> deserialize_pks (Suc n) fs loads (PFloat PosInf) fl = Some (Inl OverflowError)
   \<and> deserialize_pks (Suc n) fs loads (PFloat NegInf) fl = Some (Inl OverflowError)
   \<and> deserialize_pks (Suc n) fs loads (PFloat NaN) fl = Some (Inl ValueError)
   \<and> (fs s = Some (Some c) \<longrightarrow>
        deserialize_pks (Suc n) fs loads (PStr s) False =
          (case py_iter c of
             Inl e \<Rightarrow> Some (Inl e)
           | Inr ys \<Rightarrow> each_result (deserialize_each n fs loads ys)))
   \<and> (fs t = None
        \<and> loads (map (\<lambda>c. if c = CHR 0x27 then CHR 0x22 else c) t) = Some d \<longrightarrow>
        deserialize_pks (Suc n) fs loads (PStr t) False =
          (case py_iter d of
             Inl e \<Rightarrow> Some (Inl e)
           | Inr ys \<Rightarrow> each_result (deserialize_each n fs loads ys)))
   \<and> (fs u = None
        \<and> loads (map (\<lambda>c. if c = CHR 0x27 then CHR 0x22 else c) u) = None \<longrightarrow>
        deserialize_pks (Suc n) fs loads (PStr u) fl = Some (Inl ValueError))
   \<and> deserialize_pks (Suc n) fs loads PNone fl = Some (Inl ValueError)
   \<and> deserialize_pks (Suc n) fs loads (PDict kvs) fl = Some (Inl ValueError)"
proof (intro conjI impI)
  assume "list_all int_nest xs \<and> depth (PList xs) < n"
  then show "(case serialize_pks_to_path fs path (PList xs) of
         (p, fs') \<Rightarrow> deserialize_pks (Suc n) fs' loads (PStr p) True)
       = Some (Inr (PList (map PInt (ints_of (PList xs))), []))"
    using roundtrip by blast
next
  assume a: "int_nest v \<and> depth v < Suc n"
  then have "deserialize_pks (Suc n) fs loads v False = Some (Inr (v, []))"
    using deserialize_ints(1)[of v "Suc n" fs loads] by simp
  moreover have "flatten (PList [v]) = map PInt (ints_of v)"
    using flatten_ints[of v] a by simp
  ultimately show "deserialize_pks (Suc n) fs loads v True
      = Some (Inr (PList (map PInt (ints_of v)), []))"
    by (simp only: deserialize_flatten option.case sum.case prod.case)
next
  assume "fs s = Some (Some c)"
  then show "deserialize_pks (Suc n) fs loads (PStr s) False =
          (case py_iter c of
             Inl e \<Rightarrow> Some (Inl e)
           | Inr ys \<Rightarrow> each_result (deserialize_each n fs loads ys))"
    by (simp only: deserialize_str option.case sum.case)
next
  assume "fs t = None \<and> loads (map (\<lambda>c. if c = CHR 0x27 then CHR 0x22 else c) t) = Some d"
  then have "fs t = None" and "loads (replace_quotes t) = Some d"
    by (simp_all add: replace_quotes_def)
  then show "deserialize_pks (Suc n) fs loads (PStr t) False =
          (case py_iter d of
             Inl e \<Rightarrow> Some (Inl e)
           | Inr ys \<Rightarrow> each_result (deserialize_each n fs loads ys))"
    by (simp only: deserialize_str option.case sum.case)
next
  assume "fs u = None \<and> loads (map (\<lambda>c. if c = CHR 0x27 then CHR 0x22 else c) u) = None"
  then have "fs u = None" and "loads (replace_quotes u) = None"
    by (simp_all add: replace_quotes_def)
  then show "deserialize_pks (Suc n) fs loads (PStr u) fl = Some (Inl ValueError)"
    by simp
qed simp_all

lemma ceiling_minus_five_halves: "\<lceil>- (5 / 2) :: rat\<rceil> = - 2"
  by (rule ceiling_unique) simp_all

text \<open>
  The same at \<open>[[1,2],[3]]\<close>, at the float \<open>-2.5\<close>, at a file holding \<open>[7, 2.0]\<close>,
  at the literal \<open>[8]\<close>, at the unparsable string \<open>x\<close>, and at the literal
  \<open>['/tmp/a', 8]\<close>: it parses
  only once its single quotes are double quotes, and its first item names the
  file above.
\<close>

theorem deserialize_roundtrip_and_shapes_witness:
  "list_all int_nest [PList [PInt 1, PInt 2], PList [PInt 3]]
   \<and> depth (PList [PList [PInt 1, PInt 2], PList [PInt 3]]) < 3
   \<and> (case serialize_pks_to_path fs_example ''/tmp/pks'' (PList [PList [PInt 1, PInt 2], PList [PInt 3]]) of
         (p, fs') \<Rightarrow> deserialize_pks (Suc 3) fs' loads_example (PStr p) True)
       = Some (Inr (PList [PInt 1, PInt 2, PInt 3], []))
   \<and> deserialize_pks (Suc 3) fs_example loads_example (PList [PList [PInt 1, PInt 2], PList [PInt 3]]) True
       = Some (Inr (PList [PInt 1, PInt 2, PInt 3], []))
   \<and> deserialize_pks (Suc 3) fs_example loads_example (PFloat (Finite (- 5 / 2))) False
       = Some (Inr (PInt (- 2), [ForcingInteger (Finite (- 5 / 2))]))
   \<and> fs_example ''/tmp/a'' = Some (Some (PList [PInt 7, PFloat (Finite 2)]))
   \<and> deserialize_pks (Suc 3) fs_example loads_example (PStr ''/tmp/a'') False
       = Some (Inr (PList [PInt 7, PInt 2], [ForcingInteger (Finite 2)]))
   \<and> fs_example ''[8]'' = None \<and> loads_example ''[8]'' = Some (PList [PInt 8])
   \<and> deserialize_pks (Suc 3) fs_example loads_example (PStr ''[8]'') False
       = Some (Inr (PList [PInt 8], []))
   \<and> fs_example ''x'' = None \<and> loads_example ''x'' = None
   \<and> deserialize_pks (Suc 3) fs_example loads_example (PStr ''x'') True = Some (Inl ValueError)
   \<and> fs_example single_quoted = None
   \<and> map (\<lambda>c. if c = CHR 0x27 then CHR 0x22 else c) single_quoted = double_quoted
   \<and> loads_quoted single_quoted = None
   \<and> loads_quoted double_quoted = Some (PList [PStr ''/tmp/a'', PInt 8])
   \<and> deserialize_pks (Suc 3) fs_example loads_quoted (PStr single_quoted) True
       = Some (Inr (PList [PInt 7, PInt 2, PInt 8], [ForcingInteger (Finite 2)]))"
  using deserialize_roundtrip_and_shapes
    [where xs = "[PList [PInt 1, PInt 2], PList [PInt 3]]" and n = 3 and fs = fs_example
       and path = "''/tmp/pks''" and loads = loads_example
       and v = "PList [PList [PInt 1, PInt 2], PList [PInt 3]]" and i = 5 and q = "- 5 / 2"
       and s = "''/tmp/a''" and c = "PList [PInt 7, PFloat (Finite 2)]"
       and t = "''[8]''" and d = "PList [PInt 8]" and u = "''x''" and fl = True and kvs = "[]"]
    deserialize_roundtrip_and_shapes
    [where xs = "[PList [PInt 1, PInt 2], PList [PInt 3]]" and n = 3 and fs = fs_example
       and path = "''/tmp/pks''" and loads = loads_quoted
       and v = "PList [PList [PInt 1, PInt 2], PList [PInt 3]]" and i = 5 and q = "- 5 / 2"
       and s = "''/tmp/a''" and c = "PList [PInt 7, PFloat (Finite 2)]"
       and t = single_quoted and d = "PList [PStr ''/tmp/a'', PInt 8]"
       and u = "''x''" and fl = True and kvs = "[]"]
  by (simp add: fs_example_def loads_example_def loads_quoted_def single_quoted_def
        double_quoted_def replace_quotes_def each_result_def serialize_pks_to_path_def
        numeral_3_eq_3 ceiling_minus_five_halves)

text \<open>
  Claim C10. A string whose JSON content is a bare integer, whether the string
  names a file that holds it or is itself the literal, is not deserialised to
  that integer and does not raise \<open>ValueError\<close>: iterating over the integer
  raises \<open>TypeError\<close>.
\<close>

theorem string_bare_integer_type_error:
  assumes "fs s = Some (Some (PInt i)) \<or> (fs s = None \<and> loads (replace_quotes s) = Some (PInt i))"
  shows "deserialize_pks (Suc n) fs loads (PStr s) fl = Some (Inl TypeError)
         \<and> deserialize_pks (Suc n) fs loads (PStr s) fl \<noteq> Some (Inl ValueError)
         \<and> (\<forall>w. deserialize_pks (Suc n) fs loads (PStr s) fl \<noteq> Some (Inr (PInt i, w)))
         \<and> (\<forall>w. deserialize_pks (Suc n) fs loads (PStr s) fl \<noteq> Some (Inr (PList [PInt i], w)))"
  using assms by auto

text \<open>The string \<open>5\<close>, and a file that holds \<open>5\<close>.\<close>

theorem string_bare_integer_type_error_witness:
  "fs_example ''5'' = None \<and> loads_example (replace_quotes ''5'') = Some (PInt 5)
   \<and> deserialize_pks (Suc 0) fs_example loads_example (PStr ''5'') True = Some (Inl TypeError)
   \<and> fs_example ''/tmp/b'' = Some (Some (PInt 5))
   \<and> deserialize_pks (Suc 0) fs_example loads_example (PStr ''/tmp/b'') True = Some (Inl TypeError)"
  using string_bare_integer_type_error
          [where fs = fs_example and s = "''5''" and i = 5 and loads = loads_example and n = 0 and fl = True]
        string_bare_integer_type_error
          [where fs = fs_example and s = "''/tmp/b''" and i = 5 and loads = loads_example and n = 0 and fl = True]
  by (simp add: fs_example_def loads_example_def replace_quotes_def)

section \<open>Properties of the registry and the output linker\<close>

lemma one_or_none_Some: "one_or_none xs = Inr (Some x) \<longleftrightarrow> xs = [x]"
  by (cases xs rule: one_or_none.cases) auto

lemma one_or_none_None: "one_or_none xs = Inr None \<longleftrightarrow> xs = []"
  by (cases xs rule: one_or_none.cases) auto

lemma one_or_none_error: "one_or_none xs = Inl e \<longleftrightarrow> e = MultipleResultsFound \<and> 1 < length xs"
  by (cases xs rule: one_or_none.cases) auto

lemmas store_eval =
  get_or_create_task_instance_def create_task_instance_def add_task_instance_def
  get_or_create_parameter_pk_def add_parameter_def query_parameter_def add_link_def
  serialize_def dumps_example_def empty_store_def Let_def

lemma store_example_eq:
  "store_example =
     \<lparr>parameters =
        [\<lparr>p_pk = 1, parameter_name = ''release'', parameter_value = ''sdss5''\<rparr>,
         \<lparr>p_pk = 2, parameter_name = ''mjd'', parameter_value = ''59000''\<rparr>],
      task_instances =
        [\<lparr>t_pk = 1, dag_id = ''ingest'', task_id = ''classify'', run_id = Some ''r1'',
           output_pk = None\<rparr>],
      links = [\<lparr>ti_pk = 1, parameter_pk = 1\<rparr>, \<lparr>ti_pk = 1, parameter_pk = 2\<rparr>],
      output_interfaces = [], outputs = [],
      next_parameter_pk = 3, next_ti_pk = 2, next_output_pk = 1,
      journal = [WTaskInstance 1, WParameter 1, WLink 1 1, WParameter 2, WLink 1 2]\<rparr>"
  by (simp add: store_example_def store_eval)

text \<open>
  Claim C1, at the spec's own scenario. The first call on the empty store creates
  task instance 1 with parameters release=sdss5, mjd=59000. The second call,
  with the same parameters in the other key order, does not return instance 1:
  it creates instance 2, and the store then holds two task instances.
\<close>

theorem get_or_create_task_instance_always_creates:
  "get_or_create_task_instance dumps_example empty_store ''ingest'' ''classify'' (Some ''r1'')
       (Some [(''release'', PStr ''sdss5''), (''mjd'', PInt 59000)])
     = (Inr \<lparr>t_pk = 1, dag_id = ''ingest'', task_id = ''classify'', run_id = Some ''r1'',
              output_pk = None\<rparr>, store_example)
   \<and> fst (get_or_create_task_instance dumps_example store_example ''ingest'' ''classify''
            (Some ''r1'') (Some [(''mjd'', PInt 59000), (''release'', PStr ''sdss5'')]))
     = Inr \<lparr>t_pk = 2, dag_id = ''ingest'', task_id = ''classify'', run_id = Some ''r1'',
             output_pk = None\<rparr>
   \<and> map t_pk (task_instances
        (snd (get_or_create_task_instance dumps_example store_example ''ingest'' ''classify''
            (Some ''r1'') (Some [(''mjd'', PInt 59000), (''release'', PStr ''sdss5'')]))))
     = [1, 2]"
  by (simp add: store_example_eq) (simp add: store_eval)

text \<open>
  Claim C8, at a primary key that resolves to no task instance (7, in a store
  whose only task instance is 1): the call raises \<open>NameError\<close> for the unbound
  name \<open>task_instance_pk\<close>, not an error that reports the primary key. The store
  is left as it was.
\<close>

theorem create_task_output_unresolved_pk:
  "create_task_output store_example (Pk 7) ''Ferre'' [(''teff'', PInt 5000)]
     = (Inl (NameError ''task_instance_pk''), store_example)"
  by (simp add: store_example_eq create_task_output_def)

text \<open>
  Claim C9. For a key that is not in the parameters of the task instance,
  \<open>del_task_instance_parameter\<close> returns \<open>True\<close> without raising, and the store
  (parameters, links, task instances and all) is unchanged.
\<close>

theorem del_task_instance_parameter_absent_key:
  "dict_get (instance_parameters s ti) key = None \<Longrightarrow>
     del_task_instance_parameter dumps s ti key = (Inr True, s)"
  by (simp add: del_task_instance_parameter_def)

text \<open>The key \<open>snr\<close> is not among release, mjd of task instance 1.\<close>

theorem del_task_instance_parameter_absent_key_witness:
  "dict_get (instance_parameters store_example (hd (task_instances store_example))) ''snr'' = None
   \<and> del_task_instance_parameter dumps_example store_example
        (hd (task_instances store_example)) ''snr'' = (Inr True, store_example)"
  using del_task_instance_parameter_absent_key
          [where s = store_example and ti = "hd (task_instances store_example)"
             and key = "''snr''" and dumps = dumps_example]
  by (simp add: store_example_eq dict_get_def instance_parameters_def)

lemma filter_pk_single:
  "distinct (map f xs) \<Longrightarrow> x \<in> set xs \<Longrightarrow> filter (\<lambda>y. f y = f x) xs = [x]"
proof (induction xs)
  case Nil
  then show ?case by simp
next
  case (Cons a xs)
  show ?case
  proof (cases "a = x")
    case True
    have "f a \<notin> f ` set xs" using Cons.prems(1) by simp
    then have "\<forall>y\<in>set xs. f y \<noteq> f a" by (metis imageI)
    then have "filter (\<lambda>y. f y = f x) xs = []"
      using True by (simp add: filter_empty_conv)
    with True show ?thesis by simp
  next
    case False
    with Cons.prems have "x \<in> set xs" and "f a \<noteq> f x" by auto
    with Cons show ?thesis by simp
  qed
qed

lemma create_task_output_resolved:
  assumes "ti \<in> set (task_instances s)" and "distinct (map t_pk (task_instances s))"
    and "refers_to r (t_pk ti)"
  shows "create_task_output s r m kw =
     (let out = next_output_pk s;
          kwds = dict_update [(''ti_pk'', PInt (t_pk ti)), (''output_pk'', PInt out)] kw
      in (Inr (m, kwds),
          s\<lparr>output_interfaces := output_interfaces s @ [out],
            next_output_pk := out + 1,
            outputs := outputs s @ [(m, kwds)],
            task_instances :=
              map (\<lambda>t. if t_pk t = t_pk ti then t\<lparr>output_pk := Some out\<rparr> else t)
                (task_instances s),
            journal := journal s @
              [WOutputInterface out, WOutputRecord m kwds, WSetOutput (t_pk ti) out]\<rparr>))"
proof (cases r)
  case (Instance i)
  with assms(3) have "t_pk i = t_pk ti" by (simp add: refers_to_def)
  with Instance show ?thesis
    by (simp add: create_task_output_def add_output_interface_def add_output_def
          set_output_pk_def Let_def)
next
  case (Pk k)
  with assms(3) have k: "k = t_pk ti" by (simp add: refers_to_def)
  have "filter (\<lambda>t. t_pk t = t_pk ti) (task_instances s) = [ti]"
    using filter_pk_single[OF assms(2) assms(1)] .
  with Pk k show ?thesis
    by (simp add: create_task_output_def add_output_interface_def add_output_def
          set_output_pk_def Let_def)
qed

text \<open>
  Claim C6. For a task instance of the store, given as the instance or as its
  primary key, two calls of \<open>create_task_output\<close> both succeed; the result table
  then holds the rows it held before followed by the row of the first call and
  the row of the second; the task instance's \<open>output_pk\<close> is the output interface
  created by the second call; and each call commits, in this order, the output
  interface, the output record, and the update of \<open>output_pk\<close>.
\<close>

theorem create_task_output_twice:
  assumes "ti \<in> set (task_instances s)" and "distinct (map t_pk (task_instances s))"
    and "refers_to r1 (t_pk ti)" and "refers_to r2 (t_pk ti)"
  shows
    "(let out1 = next_output_pk s;
          out2 = next_output_pk s + 1;
          row1 = dict_update [(''ti_pk'', PInt (t_pk ti)), (''output_pk'', PInt out1)] kw1;
          row2 = dict_update [(''ti_pk'', PInt (t_pk ti)), (''output_pk'', PInt out2)] kw2;
          (res1, s1) = create_task_output s r1 m kw1;
          (res2, s2) = create_task_output s1 r2 m kw2
      in res1 = Inr (m, row1) \<and> res2 = Inr (m, row2)
         \<and> outputs s2 = outputs s @ [(m, row1), (m, row2)]
         \<and> output_interfaces s2 = output_interfaces s @ [out1, out2]
         \<and> out1 \<noteq> out2
         \<and> map output_pk (filter (\<lambda>t. t_pk t = t_pk ti) (task_instances s2)) = [Some out2]
         \<and> journal s1 = journal s @
              [WOutputInterface out1, WOutputRecord m row1, WSetOutput (t_pk ti) out1]
         \<and> journal s2 = journal s1 @
              [WOutputInterface out2, WOutputRecord m row2, WSetOutput (t_pk ti) out2])"
proof -
  let ?upd = "\<lambda>w t. if t_pk t = t_pk ti then t\<lparr>output_pk := Some w\<rparr> else t"
  let ?out1 = "next_output_pk s"
  let ?row1 = "dict_update [(''ti_pk'', PInt (t_pk ti)), (''output_pk'', PInt ?out1)] kw1"
  obtain res1 s1 where c1: "create_task_output s r1 m kw1 = (res1, s1)"
    by (cases "create_task_output s r1 m kw1")
  have e1: "res1 = Inr (m, ?row1)"
    and st1: "s1 = s\<lparr>output_interfaces := output_interfaces s @ [?out1],
            next_output_pk := ?out1 + 1,
            outputs := outputs s @ [(m, ?row1)],
            task_instances := map (?upd ?out1) (task_instances s),
            journal := journal s @
              [WOutputInterface ?out1, WOutputRecord m ?row1, WSetOutput (t_pk ti) ?out1]\<rparr>"
    using c1 create_task_output_resolved[OF assms(1,2,3), of m kw1] by (simp_all add: Let_def)
  have pk_upd: "map t_pk (map (?upd out) xs) = map t_pk xs" for out xs
    by (induction xs) auto
  have mem1: "?upd ?out1 ti \<in> set (task_instances s1)"
    using assms(1) st1 by auto
  have pk1: "t_pk (?upd ?out1 ti) = t_pk ti" by simp
  have d1: "distinct (map t_pk (task_instances s1))"
    using assms(2) st1 by (simp add: pk_upd del: map_map)
  have r2: "refers_to r2 (t_pk (?upd ?out1 ti))" using assms(4) by simp
  note c2 = create_task_output_resolved[OF mem1 d1 r2, of m kw2]
  have single: "filter (\<lambda>t. t_pk t = t_pk ti) (task_instances s) = [ti]"
    using filter_pk_single[OF assms(2) assms(1)] .
  have filt: "filter (\<lambda>t. t_pk t = t_pk ti) (map (?upd out) xs)
                = map (?upd out) (filter (\<lambda>t. t_pk t = t_pk ti) xs)" for out xs
    by (induction xs) auto
  show ?thesis
    unfolding c1 Let_def prod.case c2
    using e1 st1 single by (simp add: filt del: map_map)
qed

text \<open>Task instance 1 of the example store, first by instance, then by primary key.\<close>

theorem create_task_output_twice_witness:
  "hd (task_instances store_example) \<in> set (task_instances store_example)
   \<and> distinct (map t_pk (task_instances store_example))
   \<and> refers_to (Instance (hd (task_instances store_example))) 1 \<and> refers_to (Pk 1) 1
   \<and> (case create_task_output store_example (Instance (hd (task_instances store_example)))
              ''Ferre'' [(''teff'', PInt 5000)] of
        (res1, s1) \<Rightarrow>
          (case create_task_output s1 (Pk 1) ''Ferre'' [(''teff'', PInt 5100)] of
             (res2, s2) \<Rightarrow>
               outputs s2 =
                 [(''Ferre'', [(''ti_pk'', PInt 1), (''output_pk'', PInt 1), (''teff'', PInt 5000)]),
                  (''Ferre'', [(''ti_pk'', PInt 1), (''output_pk'', PInt 2), (''teff'', PInt 5100)])]
               \<and> map output_pk (task_instances s2) = [Some 2]
               \<and> journal s2 = journal store_example @
                   [WOutputInterface 1,
                    WOutputRecord ''Ferre''
                      [(''ti_pk'', PInt 1), (''output_pk'', PInt 1), (''teff'', PInt 5000)],
                    WSetOutput 1 1,
                    WOutputInterface 2,
                    WOutputRecord ''Ferre''
                      [(''ti_pk'', PInt 1), (''output_pk'', PInt 2), (''teff'', PInt 5100)],
                    WSetOutput 1 2]))"
  using create_task_output_twice
          [where s = store_example and ti = "hd (task_instances store_example)"
             and ?r1.0 = "Instance (hd (task_instances store_example))" and ?r2.0 = "Pk 1"
             and m = "''Ferre''" and ?kw1.0 = "[(''teff'', PInt 5000)]"
             and ?kw2.0 = "[(''teff'', PInt 5100)]"]
  by (simp add: store_example_eq refers_to_def dict_update_def create_task_output_def
        add_output_interface_def add_output_def set_output_pk_def Let_def)

section \<open>Properties of the parameter store\<close>

lemma distinct_filter_le1:
  "distinct (map f xs) \<Longrightarrow> length (filter (\<lambda>x. f x = a) xs) \<le> 1"
proof (induction xs)
  case Nil
  then show ?case by simp
next
  case (Cons x xs)
  show ?case
  proof (cases "f x = a")
    case True
    have "f x \<notin> f ` set xs" using Cons.prems by simp
    then have "\<forall>y\<in>set xs. f y \<noteq> a" using True by (metis imageI)
    then have "filter (\<lambda>x. f x = a) xs = []" by (simp add: filter_empty_conv)
    with True show ?thesis by simp
  next
    case False
    with Cons show ?thesis by simp
  qed
qed

lemma query_parameter_filter:
  "query_parameter s name sv =
     filter (\<lambda>p. (parameter_name p, parameter_value p) = (name, sv)) (parameters s)"
  by (simp add: query_parameter_def)

lemma unique_query_le1: "unique_parameters s \<Longrightarrow> length (query_parameter s name sv) \<le> 1"
  unfolding unique_parameters_def query_parameter_filter by (rule distinct_filter_le1)

lemma unique_query_cases:
  assumes "unique_parameters s"
  obtains "query_parameter s name sv = []" | p where "query_parameter s name sv = [p]"
proof (cases "query_parameter s name sv")
  case Nil
  then show ?thesis using that by simp
next
  case (Cons p ps)
  with unique_query_le1[OF assms, of name sv] have "ps = []" by simp
  with Cons show ?thesis using that by simp
qed

lemma query_empty_notin:
  "query_parameter s name sv = [] \<Longrightarrow>
     (name, sv) \<notin> set (map (\<lambda>p. (parameter_name p, parameter_value p)) (parameters s))"
  by (auto simp: query_parameter_def filter_empty_conv)

lemma add_parameter_fresh:
  assumes "query_parameter s name sv = []"
  shows "add_parameter s name sv =
     Inr (\<lparr>p_pk = next_parameter_pk s, parameter_name = name, parameter_value = sv\<rparr>,
          s\<lparr>parameters := parameters s @
               [\<lparr>p_pk = next_parameter_pk s, parameter_name = name, parameter_value = sv\<rparr>],
            next_parameter_pk := next_parameter_pk s + 1,
            journal := journal s @ [WParameter (next_parameter_pk s)]\<rparr>)"
  using assms by (simp add: add_parameter_def Let_def)

lemma add_parameter_taken:
  "query_parameter s name sv \<noteq> [] \<Longrightarrow> add_parameter s name sv = Inl IntegrityError"
  by (simp add: add_parameter_def)

lemma get_or_create_outcome:
  assumes u: "unique_parameters s" and u': "unique_parameters (others s)"
    and ser: "serialize dumps v = Inr sv"
  shows "\<exists>pk created s'.
           get_or_create_parameter_pk dumps others s name v = (Inr (pk, created), s')
           \<and> map p_pk (query_parameter s' name sv) = [pk]
           \<and> unique_parameters s'"
proof (rule unique_query_cases[OF u, of name sv])
  fix p assume q: "query_parameter s name sv = [p]"
  then have "get_or_create_parameter_pk dumps others s name v = (Inr (p_pk p, False), s)"
    using ser by (simp add: get_or_create_parameter_pk_def)
  then show ?thesis using q u by auto
next
  assume q: "query_parameter s name sv = []"
  show ?thesis
  proof (rule unique_query_cases[OF u', of name sv])
    fix p assume q': "query_parameter (others s) name sv = [p]"
    then have "add_parameter (others s) name sv = Inl IntegrityError"
      by (simp add: add_parameter_taken)
    with q q' ser
    have "get_or_create_parameter_pk dumps others s name v = (Inr (p_pk p, True), others s)"
      by (simp add: get_or_create_parameter_pk_def Let_def)
    then show ?thesis using q' u' by auto
  next
    assume q': "query_parameter (others s) name sv = []"
    let ?row = "\<lparr>p_pk = next_parameter_pk (others s), parameter_name = name,
                  parameter_value = sv\<rparr>"
    let ?s2 = "(others s)\<lparr>parameters := parameters (others s) @ [?row],
            next_parameter_pk := next_parameter_pk (others s) + 1,
            journal := journal (others s) @ [WParameter (next_parameter_pk (others s))]\<rparr>"
    have a: "add_parameter (others s) name sv = Inr (?row, ?s2)"
      using add_parameter_fresh[OF q'] .
    have r: "get_or_create_parameter_pk dumps others s name v
               = (Inr (next_parameter_pk (others s), True), ?s2)"
      using q a ser by (simp add: get_or_create_parameter_pk_def Let_def)
    have q2: "query_parameter ?s2 name sv = [?row]"
      using q' by (simp add: query_parameter_def)
    have u2: "unique_parameters ?s2"
      using u' query_empty_notin[OF q'] by (simp add: unique_parameters_def)
    show ?thesis
      unfolding r using q2 u2 by auto
  qed
qed

text \<open>
  Claim C4. While the \<open>parameter\<close> table keeps its pairs unique, a call of
  \<open>get_or_create_parameter_pk\<close> whose value serialises does not fail, whatever
  the other sessions commit between its lookup and its insert: it returns the
  primary key of the one row that then holds the pair. In particular, when the
  other session is a second call for the same pair, run in that gap, both
  calls return the same primary key and leave the same store, with exactly one
  row for the pair.
\<close>

theorem get_or_create_parameter_pk_race:
  assumes "unique_parameters s" and "unique_parameters (others s)"
    and "serialize dumps v = Inr sv"
  shows "(\<exists>pk created s'.
            get_or_create_parameter_pk dumps others s name v = (Inr (pk, created), s')
            \<and> map p_pk (query_parameter s' name sv) = [pk]
            \<and> unique_parameters s')
         \<and> (\<exists>pk c1 c2 s'.
            get_or_create_parameter_pk dumps
               (\<lambda>s0. snd (get_or_create_parameter_pk dumps (\<lambda>s. s) s0 name v)) s name v
              = (Inr (pk, c1), s')
            \<and> get_or_create_parameter_pk dumps (\<lambda>s. s) s name v = (Inr (pk, c2), s')
            \<and> map p_pk (query_parameter s' name sv) = [pk]
            \<and> unique_parameters s')"
proof
  show "\<exists>pk created s'.
            get_or_create_parameter_pk dumps others s name v = (Inr (pk, created), s')
            \<and> map p_pk (query_parameter s' name sv) = [pk]
            \<and> unique_parameters s'"
    using assms by (rule get_or_create_outcome)
next
  let ?B = "\<lambda>s0. snd (get_or_create_parameter_pk dumps (\<lambda>s. s) s0 name v)"
  have "\<exists>pk created s'.
           get_or_create_parameter_pk dumps (\<lambda>s. s) s name v = (Inr (pk, created), s')
           \<and> map p_pk (query_parameter s' name sv) = [pk]
           \<and> unique_parameters s'"
    using assms(1) assms(1) assms(3)
    by (rule get_or_create_outcome[where others = "\<lambda>s. s"])
  then obtain pkB cB sB where
    B: "get_or_create_parameter_pk dumps (\<lambda>s. s) s name v = (Inr (pkB, cB), sB)"
    and qB: "map p_pk (query_parameter sB name sv) = [pkB]"
    and uB: "unique_parameters sB"
    by auto
  have sB: "?B s = sB" using B by simp
  show "\<exists>pk c1 c2 s'.
            get_or_create_parameter_pk dumps ?B s name v = (Inr (pk, c1), s')
            \<and> get_or_create_parameter_pk dumps (\<lambda>s. s) s name v = (Inr (pk, c2), s')
            \<and> map p_pk (query_parameter s' name sv) = [pk]
            \<and> unique_parameters s'"
  proof (rule unique_query_cases[OF assms(1), of name sv])
    fix p assume q: "query_parameter s name sv = [p]"
    then have "get_or_create_parameter_pk dumps ?B s name v = (Inr (p_pk p, False), s)"
      and "get_or_create_parameter_pk dumps (\<lambda>s. s) s name v = (Inr (p_pk p, False), s)"
      using assms(3) by (simp_all add: get_or_create_parameter_pk_def)
    then show ?thesis using q assms(1) by auto
  next
    assume q: "query_parameter s name sv = []"
    obtain p where qp: "query_parameter sB name sv = [p]" and p: "p_pk p = pkB"
      using qB by (cases "query_parameter sB name sv") auto
    have "add_parameter sB name sv = Inl IntegrityError"
      using qp by (simp add: add_parameter_taken)
    then have "get_or_create_parameter_pk dumps ?B s name v = (Inr (pkB, True), sB)"
      using q qp p assms(3) sB by (simp add: get_or_create_parameter_pk_def Let_def)
    then show ?thesis using B qB uB by auto
  qed
qed

text \<open>
  On the empty store, with a second call for mjd=59000 in the gap: both calls
  return primary key 1 and one row is stored.
\<close>

theorem get_or_create_parameter_pk_race_witness:
  "unique_parameters empty_store
   \<and> unique_parameters (snd (get_or_create_parameter_pk dumps_example (\<lambda>s. s) empty_store
                               ''mjd'' (PInt 59000)))
   \<and> serialize dumps_example (PInt 59000) = Inr ''59000''
   \<and> fst (get_or_create_parameter_pk dumps_example
             (\<lambda>s0. snd (get_or_create_parameter_pk dumps_example (\<lambda>s. s) s0 ''mjd'' (PInt 59000)))
             empty_store ''mjd'' (PInt 59000)) = Inr (1, True)
   \<and> fst (get_or_create_parameter_pk dumps_example (\<lambda>s. s) empty_store ''mjd'' (PInt 59000))
       = Inr (1, True)
   \<and> parameters (snd (get_or_create_parameter_pk dumps_example
             (\<lambda>s0. snd (get_or_create_parameter_pk dumps_example (\<lambda>s. s) s0 ''mjd'' (PInt 59000)))
             empty_store ''mjd'' (PInt 59000)))
       = [\<lparr>p_pk = 1, parameter_name = ''mjd'', parameter_value = ''59000''\<rparr>]"
  using get_or_create_parameter_pk_race
          [where s = empty_store and dumps = dumps_example and v = "PInt 59000"
             and sv = "''59000''" and name = "''mjd''"
             and others = "\<lambda>s0. snd (get_or_create_parameter_pk dumps_example (\<lambda>s. s) s0
                                        ''mjd'' (PInt 59000))"]
  by (simp add: unique_parameters_def get_or_create_parameter_pk_def add_parameter_def
        query_parameter_def serialize_def dumps_example_def empty_store_def Let_def)

section \<open>Properties of the identity lookup\<close>

lemma length_remdups_card: "length (remdups xs) = card (set xs)"
  by (simp add: length_remdups_card_conv)

lemma count_distinct_card:
  "count_distinct rows t = card (parameter_pk ` {l \<in> set rows. ti_pk l = t})"
  by (simp add: count_distinct_def length_remdups_card)

lemma linked_pks_set:
  "set (linked_pks s t) = parameter_pk ` {l \<in> set (links s). ti_pk l = t}"
  by (simp add: linked_pks_def)

lemma sq_all_iff:
  "t \<in> set (sq_all s Q) \<longleftrightarrow>
     (\<exists>l \<in> set (links s). ti_pk l = t \<and> parameter_pk l \<in> set Q)
     \<and> card (set (linked_pks s t) \<inter> set Q) = length Q"
proof -
  define rows where "rows = filter (\<lambda>l. parameter_pk l \<in> set Q) (links s)"
  have e: "parameter_pk ` {l \<in> set rows. ti_pk l = t} = set (linked_pks s t) \<inter> set Q"
    by (auto simp: linked_pks_set rows_def)
  have m: "t \<in> set (sq_all s Q) \<longleftrightarrow> t \<in> ti_pk ` set rows \<and> count_distinct rows t = length Q"
    by (auto simp: sq_all_def Let_def rows_def)
  have r: "t \<in> ti_pk ` set rows \<longleftrightarrow>
             (\<exists>l \<in> set (links s). ti_pk l = t \<and> parameter_pk l \<in> set Q)"
    by (auto simp: rows_def)
  show ?thesis
    by (simp only: m r count_distinct_card e)
qed

lemma sq_exact_iff:
  "t \<in> set (sq_exact s sq n) \<longleftrightarrow>
     t \<in> set sq \<and> (\<exists>l \<in> set (links s). ti_pk l = t) \<and> card (set (linked_pks s t)) = n"
proof -
  define rows where "rows = filter (\<lambda>l. ti_pk l \<in> set sq) (links s)"
  have e: "t \<in> set sq \<Longrightarrow> parameter_pk ` {l \<in> set rows. ti_pk l = t} = set (linked_pks s t)"
    by (auto simp: linked_pks_set rows_def)
  have m: "t \<in> set (sq_exact s sq n) \<longleftrightarrow> t \<in> ti_pk ` set rows \<and> count_distinct rows t = n"
    by (auto simp: sq_exact_def Let_def rows_def)
  have r: "t \<in> ti_pk ` set rows \<longleftrightarrow> t \<in> set sq \<and> (\<exists>l \<in> set (links s). ti_pk l = t)"
    by (auto simp: rows_def)
  show ?thesis
    unfolding m r count_distinct_card using e by auto
qed

lemma exact_sound:
  assumes "t \<in> set (sq_exact s (sq_all s Q) n)" and "n \<le> length Q"
  shows "set (linked_pks s t) = set Q" and "length Q = n" and "distinct Q"
proof -
  let ?S = "set (linked_pks s t)"
  from assms(1) have c1: "card (?S \<inter> set Q) = length Q" and c2: "card ?S = n"
    by (auto simp: sq_exact_iff sq_all_iff)
  have le: "card (?S \<inter> set Q) \<le> card (set Q)"
    by (rule card_mono) auto
  have le2: "card (set Q) \<le> length Q" by (rule card_length)
  from c1 le le2 have cq: "card (set Q) = length Q" by simp
  then show "distinct Q" by (simp add: card_distinct)
  from c1 cq have "card (?S \<inter> set Q) = card (set Q)" by simp
  then have "?S \<inter> set Q = set Q"
    by (intro card_subset_eq) auto
  then have sub: "set Q \<subseteq> ?S" by blast
  have "card ?S \<le> card (set Q)" using c2 cq assms(2) by simp
  with sub show "?S = set Q"
    by (intro card_seteq[symmetric]) auto
  with c2 cq show "length Q = n" by simp
qed

lemma exact_complete:
  assumes "set (linked_pks s t) = set Q" and "Q \<noteq> []" and "distinct Q"
  shows "t \<in> set (sq_exact s (sq_all s Q) (length Q))"
proof -
  from assms(2) obtain q where "q \<in> set Q" by (cases Q) auto
  with assms(1) have "q \<in> set (linked_pks s t)" by simp
  then obtain l where l: "l \<in> set (links s)" "ti_pk l = t" "parameter_pk l = q"
    by (auto simp: linked_pks_set)
  have c: "card (set Q) = length Q" using assms(3) by (simp add: distinct_card)
  have "t \<in> set (sq_all s Q)"
    unfolding sq_all_iff using l \<open>q \<in> set Q\<close> assms(1) c by auto
  then show ?thesis
    unfolding sq_exact_iff using l assms(1) c by auto
qed

lemma serialize_items_fst:
  "serialize_items dumps kvs = Inr sps \<Longrightarrow> map fst sps = map fst kvs"
  by (induction kvs arbitrary: sps) (auto split: sum.splits)

lemma serialize_items_length:
  "serialize_items dumps kvs = Inr sps \<Longrightarrow> length sps = length kvs"
  using serialize_items_fst[of dumps kvs sps] by (metis length_map)

lemma q_p_filter:
  "q_p s sps =
     map p_pk (filter (\<lambda>p. (parameter_name p, parameter_value p) \<in> set sps) (parameters s))"
proof -
  have e: "(\<lambda>p. list_ex (\<lambda>(k, sv). parameter_name p = k \<and> parameter_value p = sv) sps)
          = (\<lambda>p. (parameter_name p, parameter_value p) \<in> set sps)"
    by (auto simp: list_ex_iff fun_eq_iff)
  show ?thesis unfolding q_p_def e ..
qed

lemma q_p_count:
  assumes "unique_parameters s"
  shows "length (q_p s sps)
           = card (set sps \<inter> (\<lambda>p. (parameter_name p, parameter_value p)) ` set (parameters s))"
proof -
  let ?pair = "\<lambda>p. (parameter_name p, parameter_value p)"
  let ?rows = "filter (\<lambda>p. ?pair p \<in> set sps) (parameters s)"
  have d: "distinct (map ?pair ?rows)"
    using assms unfolding unique_parameters_def by (rule distinct_map_filter)
  have "length (q_p s sps) = length (map ?pair ?rows)" by (simp add: q_p_filter)
  also have "\<dots> = card (set (map ?pair ?rows))" using d by (simp only: distinct_card)
  also have "set (map ?pair ?rows) = set sps \<inter> ?pair ` set (parameters s)" by auto
  finally show ?thesis .
qed

lemma query_empty_iff:
  "query_parameter s k sv = [] \<longleftrightarrow>
     (k, sv) \<notin> (\<lambda>p. (parameter_name p, parameter_value p)) ` set (parameters s)"
  by (auto simp: query_parameter_def filter_empty_conv)

lemma all_resolved:
  assumes "unique_parameters s" and "length sps \<le> length (q_p s sps)"
  shows "set sps \<subseteq> (\<lambda>p. (parameter_name p, parameter_value p)) ` set (parameters s)"
    and "length (q_p s sps) = length sps"
proof -
  let ?X = "(\<lambda>p. (parameter_name p, parameter_value p)) ` set (parameters s)"
  have n: "length (q_p s sps) = card (set sps \<inter> ?X)" by (rule q_p_count[OF assms(1)])
  have a: "card (set sps \<inter> ?X) \<le> card (set sps)" by (rule card_mono) auto
  have b: "card (set sps) \<le> length sps" by (rule card_length)
  from n a b assms(2) have "card (set sps \<inter> ?X) = card (set sps)" by simp
  then have "set sps \<inter> ?X = set sps" by (intro card_subset_eq) auto
  then show "set sps \<subseteq> ?X" by blast
  from n a b assms(2) show "length (q_p s sps) = length sps" by simp
qed

lemma some_unresolved:
  assumes "unique_parameters s" and "distinct sps" and "ksv \<in> set sps"
    and "query_parameter s (fst ksv) (snd ksv) = []"
  shows "length (q_p s sps) < length sps"
proof -
  let ?X = "(\<lambda>p. (parameter_name p, parameter_value p)) ` set (parameters s)"
  have "ksv \<notin> ?X" using assms(4) query_empty_iff[of s "fst ksv" "snd ksv"] by simp
  with assms(3) have "set sps \<inter> ?X \<subset> set sps" by blast
  then have "card (set sps \<inter> ?X) < card (set sps)" by (intro psubset_card_mono) auto
  also have "card (set sps) = length sps" using assms(2) by (rule distinct_card)
  finally show ?thesis by (simp only: q_p_count[OF assms(1)])
qed

lemma instance_parameters_set:
  "set (instance_parameters s ti)
     = (\<lambda>p. (parameter_name p, parameter_value p)) `
         {p \<in> set (parameters s). p_pk p \<in> set (linked_pks s (t_pk ti))}"
  by (auto simp: instance_parameters_def linked_pks_set)

lemma rows_of_q_p:
  assumes "distinct (map p_pk (parameters s))"
  shows "{p \<in> set (parameters s). p_pk p \<in> set (q_p s sps)}
           = {p \<in> set (parameters s). (parameter_name p, parameter_value p) \<in> set sps}"
proof -
  have inj: "inj_on p_pk (set (parameters s))" using assms by (simp add: distinct_map)
  show ?thesis
  proof (intro set_eqI iffI)
    fix p assume "p \<in> {p \<in> set (parameters s). p_pk p \<in> set (q_p s sps)}"
    then have p: "p \<in> set (parameters s)" and "p_pk p \<in> set (q_p s sps)" by auto
    then obtain p' where p': "p' \<in> set (parameters s)"
        "(parameter_name p', parameter_value p') \<in> set sps" "p_pk p' = p_pk p"
      by (auto simp: q_p_filter)
    with inj p have "p' = p" by (auto dest: inj_onD)
    with p p' show "p \<in> {p \<in> set (parameters s). (parameter_name p, parameter_value p) \<in> set sps}"
      by simp
  next
    fix p assume "p \<in> {p \<in> set (parameters s). (parameter_name p, parameter_value p) \<in> set sps}"
    then show "p \<in> {p \<in> set (parameters s). p_pk p \<in> set (q_p s sps)}"
      by (auto simp: q_p_filter)
  qed
qed

lemma two_members: "x \<in> set xs \<Longrightarrow> y \<in> set xs \<Longrightarrow> x \<noteq> y \<Longrightarrow> 1 < length xs"
  by (cases xs rule: one_or_none.cases) auto

lemma get_task_instance_found:
  assumes pk: "distinct (map p_pk (parameters s))" and u: "unique_parameters s"
    and ser: "serialize_items dumps kvs = Inr sps"
    and res: "get_task_instance dumps s dag tsk rn kvs = Inr (Some ti)"
  shows "ti \<in> set (task_instances s) \<and> same_identity ti dag tsk rn
         \<and> set (linked_pks s (t_pk ti)) = set (q_p s sps)
         \<and> set (instance_parameters s ti) = set sps"
proof -
  let ?pair = "\<lambda>p. (parameter_name p, parameter_value p)"
  have len: "length sps = length kvs" using ser by (rule serialize_items_length)
  from res ser have n: "length kvs \<le> length (q_p s sps)"
    and one: "one_or_none (matching_instances s dag tsk rn sps) = Inr (Some ti)"
    by (auto simp: get_task_instance_def Let_def split: if_splits)
  from one have "matching_instances s dag tsk rn sps = [ti]"
    by (simp add: one_or_none_Some)
  then have "ti \<in> set (matching_instances s dag tsk rn sps)" by simp
  then have mem: "ti \<in> set (task_instances s)" and sid: "same_identity ti dag tsk rn"
    and sq: "t_pk ti \<in> set (sq_exact s (sq_all s (q_p s sps)) (length sps))"
    by (auto simp: matching_instances_def Let_def)
  have n': "length sps \<le> length (q_p s sps)" using n len by simp
  have S: "set (linked_pks s (t_pk ti)) = set (q_p s sps)"
    using exact_sound(1)[OF sq n'] .
  have sub: "set sps \<subseteq> ?pair ` set (parameters s)"
    using all_resolved(1)[OF u n'] .
  have "set (instance_parameters s ti)
          = ?pair ` {p \<in> set (parameters s). p_pk p \<in> set (q_p s sps)}"
    by (simp only: instance_parameters_set S)
  also have "\<dots> = ?pair ` {p \<in> set (parameters s). ?pair p \<in> set sps}"
    by (simp only: rows_of_q_p[OF pk])
  also have "\<dots> = set sps" using sub by auto
  finally show ?thesis using mem sid S by simp
qed

lemma get_task_instance_short_circuit:
  assumes u: "unique_parameters s" and d: "distinct (map fst kvs)"
    and ser: "serialize_items dumps kvs = Inr sps"
    and un: "ksv \<in> set sps" "query_parameter s (fst ksv) (snd ksv) = []"
  shows "get_task_instance dumps s dag tsk rn kvs = Inr None"
proof -
  have "distinct (map fst sps)" using d serialize_items_fst[OF ser] by simp
  then have "distinct sps" by (simp add: distinct_map)
  then have "length (q_p s sps) < length sps" using u un by (intro some_unresolved) auto
  then show ?thesis using ser serialize_items_length[OF ser]
    by (simp add: get_task_instance_def Let_def)
qed

lemma get_task_instance_ambiguous:
  assumes pk: "distinct (map p_pk (parameters s))" and u: "unique_parameters s"
    and d: "distinct (map fst kvs)"
    and ser: "serialize_items dumps kvs = Inr sps"
    and ne: "kvs \<noteq> []"
    and all: "\<forall>ksv \<in> set sps. query_parameter s (fst ksv) (snd ksv) \<noteq> []"
    and t1: "t1 \<in> set (task_instances s)" "same_identity t1 dag tsk rn"
            "set (linked_pks s (t_pk t1)) = set (q_p s sps)"
    and t2: "t2 \<in> set (task_instances s)" "same_identity t2 dag tsk rn"
            "set (linked_pks s (t_pk t2)) = set (q_p s sps)"
    and diff: "t1 \<noteq> t2"
  shows "get_task_instance dumps s dag tsk rn kvs = Inl MultipleResultsFound"
proof -
  let ?pair = "\<lambda>p. (parameter_name p, parameter_value p)"
  let ?Q = "q_p s sps"
  have len: "length sps = length kvs" using ser by (rule serialize_items_length)
  have sub: "set sps \<subseteq> ?pair ` set (parameters s)"
    using all query_empty_iff[of s] by force
  then have "set sps \<inter> ?pair ` set (parameters s) = set sps" by blast
  then have cnt: "length ?Q = card (set sps)" using q_p_count[OF u, of sps] by simp
  have dQ: "distinct ?Q"
    unfolding q_p_filter using pk by (rule distinct_map_filter)
  have "sps \<noteq> []" using ne len by auto
  then obtain ksv where "ksv \<in> set sps" by (cases sps) auto
  with sub obtain p where "p \<in> set (parameters s)" "?pair p \<in> set sps" by force
  then have "p_pk p \<in> set ?Q" by (auto simp: q_p_filter)
  then have Qne: "?Q \<noteq> []" by auto
  have in1: "t_pk t1 \<in> set (sq_exact s (sq_all s ?Q) (length ?Q))"
    using exact_complete[OF t1(3) Qne dQ] .
  have in2: "t_pk t2 \<in> set (sq_exact s (sq_all s ?Q) (length ?Q))"
    using exact_complete[OF t2(3) Qne dQ] .
  have "distinct (map fst sps)" using d serialize_items_fst[OF ser] by simp
  then have "distinct sps" by (simp add: distinct_map)
  then have eq: "length ?Q = length sps" using cnt by (simp add: distinct_card)
  with in1 in2 t1 t2 have "t1 \<in> set (matching_instances s dag tsk rn sps)"
    and "t2 \<in> set (matching_instances s dag tsk rn sps)"
    by (simp_all add: matching_instances_def Let_def)
  then have "1 < length (matching_instances s dag tsk rn sps)"
    using diff by (rule two_members)
  then have "one_or_none (matching_instances s dag tsk rn sps) = Inl MultipleResultsFound"
    by (simp add: one_or_none_error)
  with eq ser len show ?thesis by (simp add: get_task_instance_def Let_def)
qed

lemma store_example2_eq:
  "store_example2 =
     \<lparr>parameters =
        [\<lparr>p_pk = 1, parameter_name = ''release'', parameter_value = ''sdss5''\<rparr>,
         \<lparr>p_pk = 2, parameter_name = ''mjd'', parameter_value = ''59000''\<rparr>],
      task_instances =
        [\<lparr>t_pk = 1, dag_id = ''ingest'', task_id = ''classify'', run_id = Some ''r1'',
           output_pk = None\<rparr>,
         \<lparr>t_pk = 2, dag_id = ''ingest'', task_id = ''classify'', run_id = Some ''r1'',
           output_pk = None\<rparr>],
      links = [\<lparr>ti_pk = 1, parameter_pk = 1\<rparr>, \<lparr>ti_pk = 1, parameter_pk = 2\<rparr>,
               \<lparr>ti_pk = 2, parameter_pk = 2\<rparr>, \<lparr>ti_pk = 2, parameter_pk = 1\<rparr>],
      output_interfaces = [], outputs = [],
      next_parameter_pk = 3, next_ti_pk = 3, next_output_pk = 1,
      journal = [WTaskInstance 1, WParameter 1, WLink 1 1, WParameter 2, WLink 1 2,
                 WTaskInstance 2, WLink 2 2, WLink 2 1]\<rparr>"
  by (simp add: store_example2_def store_example_eq) (simp add: store_eval)

lemmas lookup_eval =
  get_task_instance_def matching_instances_def sq_exact_def sq_all_def count_distinct_def
  q_p_def same_identity_def linked_pks_def instance_parameters_def query_parameter_def
  unique_parameters_def serialize_def dumps_example_def Let_def

text \<open>
  Claim C3. In a store whose \<open>Parameter\<close> rows have distinct primary keys and
  distinct (name, value) pairs, for a dict of parameters that serialises:
  a task instance is returned only if the parameters linked to it are exactly
  the rows of the requested pairs, so that its parameters are the requested
  pairs, and no task instance whose linked set is a strict subset or a strict
  superset of the requested rows is returned; if some requested pair has no
  \<open>Parameter\<close> row the result is \<open>None\<close>; and if two different task instances
  with the requested identifiers are both linked to exactly the requested rows,
  the lookup raises \<open>MultipleResultsFound\<close>.
\<close>

theorem get_task_instance_exact_match:
  assumes "distinct (map p_pk (parameters s))" and "unique_parameters s"
    and "distinct (map fst kvs)" and "serialize_items dumps kvs = Inr sps"
  shows
    "(get_task_instance dumps s dag tsk rn kvs = Inr (Some ti) \<longrightarrow>
        ti \<in> set (task_instances s) \<and> same_identity ti dag tsk rn
        \<and> set (linked_pks s (t_pk ti)) = set (q_p s sps)
        \<and> set (instance_parameters s ti) = set sps)
     \<and> (set (linked_pks s (t_pk t)) \<subset> set (q_p s sps)
          \<or> set (q_p s sps) \<subset> set (linked_pks s (t_pk t)) \<longrightarrow>
        get_task_instance dumps s dag tsk rn kvs \<noteq> Inr (Some t))
     \<and> ((\<exists>ksv \<in> set sps. query_parameter s (fst ksv) (snd ksv) = []) \<longrightarrow>
        get_task_instance dumps s dag tsk rn kvs = Inr None)
     \<and> (kvs \<noteq> [] \<and> (\<forall>ksv \<in> set sps. query_parameter s (fst ksv) (snd ksv) \<noteq> [])
          \<and> t1 \<in> set (task_instances s) \<and> same_identity t1 dag tsk rn
          \<and> set (linked_pks s (t_pk t1)) = set (q_p s sps)
          \<and> t2 \<in> set (task_instances s) \<and> same_identity t2 dag tsk rn
          \<and> set (linked_pks s (t_pk t2)) = set (q_p s sps)
          \<and> t1 \<noteq> t2 \<longrightarrow>
        get_task_instance dumps s dag tsk rn kvs = Inl MultipleResultsFound)"
proof (intro conjI impI)
  assume r: "get_task_instance dumps s dag tsk rn kvs = Inr (Some ti)"
  note f = get_task_instance_found[OF assms(1,2,4) r]
  from f show "ti \<in> set (task_instances s)" by simp
  from f show "same_identity ti dag tsk rn" by simp
  from f show "set (linked_pks s (t_pk ti)) = set (q_p s sps)" by simp
  from f show "set (instance_parameters s ti) = set sps" by simp
next
  assume a: "set (linked_pks s (t_pk t)) \<subset> set (q_p s sps)
          \<or> set (q_p s sps) \<subset> set (linked_pks s (t_pk t))"
  show "get_task_instance dumps s dag tsk rn kvs \<noteq> Inr (Some t)"
  proof
    assume r: "get_task_instance dumps s dag tsk rn kvs = Inr (Some t)"
    have "set (linked_pks s (t_pk t)) = set (q_p s sps)"
      using get_task_instance_found[OF assms(1,2,4) r] by simp
    with a show False by blast
  qed
next
  assume "\<exists>ksv \<in> set sps. query_parameter s (fst ksv) (snd ksv) = []"
  then obtain ksv where "ksv \<in> set sps" "query_parameter s (fst ksv) (snd ksv) = []"
    by blast
  then show "get_task_instance dumps s dag tsk rn kvs = Inr None"
    by (rule get_task_instance_short_circuit[OF assms(2,3,4)])
next
  assume a: "kvs \<noteq> [] \<and> (\<forall>ksv \<in> set sps. query_parameter s (fst ksv) (snd ksv) \<noteq> [])
          \<and> t1 \<in> set (task_instances s) \<and> same_identity t1 dag tsk rn
          \<and> set (linked_pks s (t_pk t1)) = set (q_p s sps)
          \<and> t2 \<in> set (task_instances s) \<and> same_identity t2 dag tsk rn
          \<and> set (linked_pks s (t_pk t2)) = set (q_p s sps)
          \<and> t1 \<noteq> t2"
  then show "get_task_instance dumps s dag tsk rn kvs = Inl MultipleResultsFound"
    using get_task_instance_ambiguous[OF assms(1,2,3,4), of t1 dag tsk rn t2] by blast
qed

text \<open>
  In the store that holds task instance 1 with release=sdss5 and mjd=59000:
  the lookup with both pairs, in the other key order, finds instance 1; the
  lookup with release=sdss5 alone, a strict subset, finds nothing; the lookup
  with the unstored pair snr=10 finds nothing. In the store that holds a
  second instance with the same parameters the lookup raises.
\<close>

theorem get_task_instance_exact_match_witness:
  "distinct (map p_pk (parameters store_example)) \<and> unique_parameters store_example
   \<and> serialize_items dumps_example [(''mjd'', PInt 59000), (''release'', PStr ''sdss5'')]
        = Inr [(''mjd'', ''59000''), (''release'', ''sdss5'')]
   \<and> get_task_instance dumps_example store_example ''ingest'' ''classify'' (Some ''r1'')
        [(''mjd'', PInt 59000), (''release'', PStr ''sdss5'')]
        = Inr (Some (hd (task_instances store_example)))
   \<and> set (instance_parameters store_example (hd (task_instances store_example)))
        = {(''mjd'', ''59000''), (''release'', ''sdss5'')}
   \<and> set (q_p store_example [(''release'', ''sdss5'')])
        \<subset> set (linked_pks store_example (t_pk (hd (task_instances store_example))))
   \<and> get_task_instance dumps_example store_example ''ingest'' ''classify'' (Some ''r1'')
        [(''release'', PStr ''sdss5'')] = Inr None
   \<and> query_parameter store_example ''snr'' ''10'' = []
   \<and> get_task_instance dumps_example store_example ''ingest'' ''classify'' None
        [(''release'', PStr ''sdss5''), (''snr'', PStr ''10'')] = Inr None
   \<and> distinct (map p_pk (parameters store_example2)) \<and> unique_parameters store_example2
   \<and> hd (task_instances store_example2) \<noteq> last (task_instances store_example2)
   \<and> get_task_instance dumps_example store_example2 ''ingest'' ''classify'' (Some ''r1'')
        [(''release'', PStr ''sdss5''), (''mjd'', PInt 59000)] = Inl MultipleResultsFound"
  using
    get_task_instance_exact_match
      [where s = store_example and dumps = dumps_example and dag = "''ingest''"
         and tsk = "''classify''" and rn = "Some ''r1''"
         and kvs = "[(''mjd'', PInt 59000), (''release'', PStr ''sdss5'')]"
         and sps = "[(''mjd'', ''59000''), (''release'', ''sdss5'')]"
         and ti = "hd (task_instances store_example)"
         and t = "hd (task_instances store_example)"
         and ?t1.0 = "hd (task_instances store_example)"
         and ?t2.0 = "hd (task_instances store_example)"]
    get_task_instance_exact_match
      [where s = store_example and dumps = dumps_example and dag = "''ingest''"
         and tsk = "''classify''" and rn = "Some ''r1''"
         and kvs = "[(''release'', PStr ''sdss5'')]"
         and sps = "[(''release'', ''sdss5'')]"
         and ti = "hd (task_instances store_example)"
         and t = "hd (task_instances store_example)"
         and ?t1.0 = "hd (task_instances store_example)"
         and ?t2.0 = "hd (task_instances store_example)"]
    get_task_instance_exact_match
      [where s = store_example and dumps = dumps_example and dag = "''ingest''"
         and tsk = "''classify''" and rn = None
         and kvs = "[(''release'', PStr ''sdss5''), (''snr'', PStr ''10'')]"
         and sps = "[(''release'', ''sdss5''), (''snr'', ''10'')]"
         and ti = "hd (task_instances store_example)"
         and t = "hd (task_instances store_example)"
         and ?t1.0 = "hd (task_instances store_example)"
         and ?t2.0 = "hd (task_instances store_example)"]
    get_task_instance_exact_match
      [where s = store_example2 and dumps = dumps_example and dag = "''ingest''"
         and tsk = "''classify''" and rn = "Some ''r1''"
         and kvs = "[(''release'', PStr ''sdss5''), (''mjd'', PInt 59000)]"
         and sps = "[(''release'', ''sdss5''), (''mjd'', ''59000'')]"
         and ti = "hd (task_instances store_example2)"
         and t = "hd (task_instances store_example2)"
         and ?t1.0 = "hd (task_instances store_example2)"
         and ?t2.0 = "last (task_instances store_example2)"]
  by (simp add: store_example_eq store_example2_eq lookup_eval insert_commute psubset_eq)

section \<open>Properties of the batch writer and the task runner\<close>


lemma chunked_subset: "g \<in> set (chunked xs n) \<Longrightarrow> set g \<subseteq> set xs"
proof (induction xs n rule: chunked.induct)
  case (1 xs n)
  show ?case
  proof (cases "n = 0 \<or> xs = []")
    case True
    then have "chunked xs n = []" by (subst chunked.simps) simp
    with 1(2) show ?thesis by simp
  next
    case False
    with 1(2) have "g = take n xs \<or> g \<in> set (chunked (drop n xs) n)"
      by (subst (asm) chunked.simps) auto
    then show ?thesis
    proof
      assume "g = take n xs"
      then show ?thesis by (auto dest: in_set_takeD)
    next
      assume "g \<in> set (chunked (drop n xs) n)"
      with 1(1) False have "set g \<subseteq> set (drop n xs)" by simp
      then show ?thesis by (auto dest: in_set_dropD)
    qed
  qed
qed

lemma items_of_enumerate: "items_of xs (enumerate 0 xs)"
  by (auto simp: items_of_def in_set_enumerate_eq)

lemma items_of_Cons:
  "items_of orig ((i, r) # irs) \<longleftrightarrow>
     i < length orig \<and> data r = data (orig ! i) \<and> items_of orig irs"
  by (auto simp: items_of_def)

lemma map_data_update:
  assumes "map data results = map data orig" and "i < length orig"
    and "data r' = data (orig ! i)"
  shows "map data (results[i := r']) = map data orig"
proof -
  have "map data (results[i := r']) = (map data results)[i := data r']"
    by (simp add: map_update)
  also have "\<dots> = (map data orig)[i := map data orig ! i]"
    using assms by simp
  also have "\<dots> = map data orig" by (rule list_update_id)
  finally show ?thesis .
qed

lemma model_create_data:
  "model_create rejects db r = Inr (r', db') \<Longrightarrow> data r' = data r \<and> ident r' \<noteq> None"
  by (auto simp: model_create_def split: sum.splits)

lemma create_dirty_data:
  assumes "create_dirty rejects db results irs = (e, results', db')"
    and "map data results = map data orig" and "items_of orig irs"
  shows "map data results' = map data orig"
  using assms
proof (induction irs arbitrary: db results)
  case Nil
  then show ?case by simp
next
  case (Cons ir irs)
  obtain i r where ir: "ir = (i, r)" by (cases ir)
  from Cons.prems(3) ir have i: "i < length orig" and d: "data r = data (orig ! i)"
    and rest: "items_of orig irs"
    by (simp_all add: items_of_Cons)
  show ?case
  proof (cases "dirty r")
    case False
    with Cons.prems(1) ir have "create_dirty rejects db results irs = (e, results', db')"
      by simp
    then show ?thesis using Cons.prems(2) rest by (rule Cons.IH)
  next
    case True
    show ?thesis
    proof (cases "model_create rejects db r")
      case (Inl err)
      with True Cons.prems(1,2) ir show ?thesis by simp
    next
      case (Inr p)
      obtain r' db1 where p: "p = (r', db1)" by (cases p)
      have "data r' = data (orig ! i)"
        using model_create_data[of rejects db r r' db1] Inr p d by simp
      then have m: "map data (results[i := r']) = map data orig"
        using map_data_update[OF Cons.prems(2) i] by simp
      have "create_dirty rejects db1 (results[i := r']) irs = (e, results', db')"
        using Cons.prems(1) ir True Inr p by simp
      then show ?thesis using m rest by (rule Cons.IH)
    qed
  qed
qed

lemma batch_commit_data:
  assumes "batch_commit rejects db results gs = (e, results', db')"
    and "map data results = map data orig" and "\<forall>g \<in> set gs. items_of orig g"
  shows "map data results' = map data orig"
  using assms
proof (induction gs arbitrary: db results)
  case Nil
  then show ?case by simp
next
  case (Cons g gs)
  obtain e1 r1 d1 where c: "create_dirty rejects db results g = (e1, r1, d1)"
    by (cases "create_dirty rejects db results g")
  have g: "items_of orig g" using Cons.prems(3) by simp
  have m: "map data r1 = map data orig"
    using create_dirty_data[OF c Cons.prems(2) g] .
  show ?case
  proof (cases e1)
    case (Some err)
    with Cons.prems(1) c have "results' = r1" by simp
    with m show ?thesis by simp
  next
    case None
    with Cons.prems(1) c have bc: "batch_commit rejects d1 r1 gs = (e, results', db')"
      by simp
    have rest: "\<forall>g \<in> set gs. items_of orig g" using Cons.prems(3) by simp
    show ?thesis using bc m rest by (rule Cons.IH)
  qed
qed

lemma set_ids_data: "map data (set_ids results iks) = map data results"
proof (induction iks arbitrary: results)
  case Nil
  then show ?case by simp
next
  case (Cons ik iks)
  obtain i k where ik: "ik = (i, k)" by (cases ik)
  have "map data (results[i := (results ! i)\<lparr>ident := Some k\<rparr>]) = map data results"
  proof (cases "i < length results")
    case True
    have "map data (results[i := (results ! i)\<lparr>ident := Some k\<rparr>])
            = (map data results)[i := map data results ! i]"
      using True by (simp add: map_update)
    then show ?thesis by (simp only: list_update_id)
  next
    case False
    then have "length results \<le> i" by simp
    then show ?thesis by (simp only: list_update_beyond)
  qed
  with Cons.IH[of "results[i := (results ! i)\<lparr>ident := Some k\<rparr>]"] ik show ?case by simp
qed

lemma bulk_create_data:
  "bulk_create rejects db results gs = (e, results', db') \<Longrightarrow>
     map data results' = map data results"
proof (induction gs arbitrary: db results)
  case Nil
  then show ?case by simp
next
  case (Cons g gs)
  show ?case
  proof (cases "insert_many rejects db (map (\<lambda>ir. data (snd ir)) g)")
    case (Inl err)
    with Cons.prems show ?thesis by simp
  next
    case (Inr p)
    obtain ks db1 where p: "p = (ks, db1)" by (cases p)
    with Cons.prems Inr
    have "bulk_create rejects db1 (set_ids results (zip (map fst g) ks)) gs = (e, results', db')"
      by simp
    then have "map data results' = map data (set_ids results (zip (map fst g) ks))"
      by (rule Cons.IH)
    then show ?thesis by (simp only: set_ids_data)
  qed
qed

lemma items_of_chunked:
  "\<forall>g \<in> set (chunked (enumerate 0 results) n). items_of results g"
proof
  fix g assume "g \<in> set (chunked (enumerate 0 results) n)"
  then have "set g \<subseteq> set (enumerate 0 results)" by (rule chunked_subset)
  with items_of_enumerate[of results] show "items_of results g"
    unfolding items_of_def by blast
qed

lemma bulk_insert_data:
  assumes "bulk_insert rejects db results n rr = (e, results', db', l)"
  shows "map data results' = map data results"
proof (cases "results = []")
  case True
  with assms show ?thesis by (simp add: bulk_insert_def)
next
  case False
  define db1 where "db1 = (if table_exists db then db else db\<lparr>table_exists := True\<rparr>)"
  define gs where "gs = chunked (enumerate 0 results) n"
  show ?thesis
  proof (cases "sqlite db1")
    case True
    obtain e1 r1 d1 where b: "batch_commit rejects db1 results gs = (e1, r1, d1)"
      by (cases "batch_commit rejects db1 results gs")
    have "map data r1 = map data results"
      using batch_commit_data[OF b refl] items_of_chunked[of results n] gs_def by simp
    moreover have "results' = r1"
      using assms False True b
      by (auto simp: bulk_insert_def Let_def db1_def gs_def split: if_splits option.splits)
    ultimately show ?thesis by simp
  next
    case nsq: False
    obtain e1 r1 d1 where b: "bulk_create rejects db1 results gs = (e1, r1, d1)"
      by (cases "bulk_create rejects db1 results gs")
    have "map data r1 = map data results"
      using bulk_create_data[OF b] .
    moreover have "results' = r1"
      using assms False nsq b
      by (auto simp: bulk_insert_def Let_def db1_def gs_def split: if_splits option.splits)
    ultimately show ?thesis by simp
  qed
qed

lemma bulk_insert_swallow:
  "bulk_insert rejects db results n False = (e, results', db', l) \<Longrightarrow> e = None"
  by (auto simp: bulk_insert_def Let_def split: if_splits option.splits prod.splits)

lemma insert_row_accepts:
  "insert_row accepts_all db d
     = Inr (next_id db, db\<lparr>table := table db @ [(next_id db, d)], next_id := next_id db + 1\<rparr>)"
  by (simp add: insert_row_def accepts_all_def)

lemma create_dirty_accepts: "fst (create_dirty accepts_all db results irs) = None"
proof (induction irs arbitrary: db results)
  case Nil
  then show ?case by simp
next
  case (Cons ir irs)
  obtain i r where ir: "ir = (i, r)" by (cases ir)
  show ?case using Cons.IH ir
    by (simp add: model_create_def insert_row_accepts)
qed

lemma batch_commit_accepts: "fst (batch_commit accepts_all db results gs) = None"
proof (induction gs arbitrary: db results)
  case Nil
  then show ?case by simp
next
  case (Cons g gs)
  obtain e1 r1 d1 where c: "create_dirty accepts_all db results g = (e1, r1, d1)"
    by (cases "create_dirty accepts_all db results g")
  with create_dirty_accepts[of db results g] have "e1 = None" by simp
  with c Cons.IH show ?case by simp
qed

lemma insert_many_accepts: "\<exists>ks db'. insert_many accepts_all db ds = Inr (ks, db')"
proof (induction ds arbitrary: db)
  case Nil
  then show ?case by simp
next
  case (Cons d ds)
  let ?db1 = "db\<lparr>table := table db @ [(next_id db, d)], next_id := next_id db + 1\<rparr>"
  from Cons.IH[of ?db1] obtain ks db' where "insert_many accepts_all ?db1 ds = Inr (ks, db')"
    by auto
  then show ?case by (simp add: insert_row_accepts)
qed

lemma bulk_create_accepts: "fst (bulk_create accepts_all db results gs) = None"
proof (induction gs arbitrary: db results)
  case Nil
  then show ?case by simp
next
  case (Cons g gs)
  obtain ks db1 where "insert_many accepts_all db (map (\<lambda>ir. data (snd ir)) g) = Inr (ks, db1)"
    using insert_many_accepts[of db "map (\<lambda>ir. data (snd ir)) g"] by auto
  with Cons.IH show ?case by simp
qed

lemma bulk_insert_accepts:
  assumes "bulk_insert accepts_all db results n rr = (e, results', db', l)"
  shows "e = None"
proof (cases "results = []")
  case True
  with assms show ?thesis by (simp add: bulk_insert_def)
next
  case False
  define db1 where "db1 = (if table_exists db then db else db\<lparr>table_exists := True\<rparr>)"
  define gs where "gs = chunked (enumerate 0 results) n"
  obtain e1 r1 d1 where b: "batch_commit accepts_all db1 results gs = (e1, r1, d1)"
    by (cases "batch_commit accepts_all db1 results gs")
  with batch_commit_accepts[of db1 results gs] have e1: "e1 = None" by simp
  obtain e2 r2 d2 where c: "bulk_create accepts_all db1 results gs = (e2, r2, d2)"
    by (cases "bulk_create accepts_all db1 results gs")
  with bulk_create_accepts[of db1 results gs] have e2: "e2 = None" by simp
  show ?thesis
    using assms False b c e1 e2
    by (auto simp: bulk_insert_def Let_def db1_def gs_def split: if_splits option.splits)
qed

lemma bulk_insert_no_raise:
  assumes "\<not> rr \<or> rejects = accepts_all"
    and "bulk_insert rejects db results n rr = (e, results', db', l)"
  shows "e = None"
  using assms bulk_insert_swallow[of rejects db results n e results' db' l]
    bulk_insert_accepts[of db results n rr e results' db' l]
  by auto

lemma yielded_append: "yielded (es @ fs) = yielded es @ yielded fs"
  by (induction es rule: yielded.induct) simp_all

lemma flushed_append: "flushed (es @ fs) = flushed es @ flushed fs"
  by (induction es rule: flushed.induct) simp_all

lemma yielded_map: "yielded (map Yielded rs) = rs"
  by (induction rs) simp_all

lemma flushed_map: "flushed (map Yielded rs) = []"
  by (induction rs) simp_all

lemma flush_block:
  assumes "map data rs = map data b" and "flush_then_yield es"
  shows "flush_then_yield (Flushed b # map Yielded rs @ es)"
proof -
  have len: "length rs = length b" using assms(1) by (metis length_map)
  then have t: "take (length b) (map Yielded rs @ es) = map Yielded rs"
    and d: "drop (length b) (map Yielded rs @ es) = es"
    by simp_all
  show ?thesis
    using len assms by (simp add: t d yielded_map)
qed

lemma run_completes:
  assumes "\<not> rr \<or> (rejects = accepts_all \<and> raised ps = [])"
  shows "fst (run rejects n rr db results ps) = None"
  using assms
proof (induction ps arbitrary: db results)
  case Nil
  obtain e r1 d1 l1 where b: "bulk_insert rejects db results n rr = (e, r1, d1, l1)"
    by (cases "bulk_insert rejects db results n rr") auto
  with Nil bulk_insert_no_raise[of rr rejects db results n e r1 d1 l1] have "e = None" by auto
  with b show ?case by simp
next
  case (Cons p ps)
  show ?case
  proof (cases p)
    case (Raised m)
    with Cons.prems have nr: "\<not> rr" by auto
    then have i: "fst (run rejects n rr db results ps) = None" by (intro Cons.IH) simp
    obtain st ev d l where "run rejects n rr db results ps = (st, ev, d, l)"
      by (cases "run rejects n rr db results ps") auto
    with i Raised nr show ?thesis by simp
  next
    case (Record r c)
    with Cons.prems have a: "\<not> rr \<or> (rejects = accepts_all \<and> raised ps = [])" by auto
    show ?thesis
    proof (cases c)
      case False
      with Record Cons.IH[OF a] show ?thesis by simp
    next
      case True
      obtain e r1 d1 l1 where
        b: "bulk_insert rejects db (results @ [r]) n rr = (e, r1, d1, l1)"
        by (cases "bulk_insert rejects db (results @ [r]) n rr") auto
      with a bulk_insert_no_raise[of rr rejects db "results @ [r]" n e r1 d1 l1]
      have "e = None" by auto
      moreover obtain st ev d l where "run rejects n rr d1 [] ps = (st, ev, d, l)"
        by (cases "run rejects n rr d1 [] ps") auto
      ultimately show ?thesis
        using b Record True Cons.IH[OF a, of d1 "[]"] by simp
    qed
  qed
qed

lemma run_events:
  assumes "run rejects n rr db results ps = (None, ev, db', l)"
  shows "map data (yielded ev) = map data (results @ produced ps)
         \<and> concat (flushed ev) = results @ produced ps
         \<and> flush_then_yield ev
         \<and> flushed ev \<noteq> [] \<and> last (flushed ev) = pending results ps"
  using assms
proof (induction ps arbitrary: db results ev db' l)
  case Nil
  obtain e r1 d1 l1 where b: "bulk_insert rejects db results n rr = (e, r1, d1, l1)"
    by (cases "bulk_insert rejects db results n rr") auto
  with Nil have e: "e = None" and ev: "ev = Flushed results # map Yielded r1"
    by (auto split: option.splits)
  have m: "map data r1 = map data results" using bulk_insert_data[OF b] .
  have "flush_then_yield (Flushed results # map Yielded r1 @ [])"
    using m by (intro flush_block) simp_all
  then show ?case using ev m by (simp add: yielded_map flushed_map)
next
  case (Cons p ps)
  show ?case
  proof (cases p)
    case (Raised m)
    with Cons.prems obtain l0 where "run rejects n rr db results ps = (None, ev, db', l0)"
      by (auto split: if_splits prod.splits)
    from Cons.IH[OF this] Raised show ?thesis by simp
  next
    case (Record r c)
    show ?thesis
    proof (cases c)
      case False
      with Cons.prems Record have "run rejects n rr db (results @ [r]) ps = (None, ev, db', l)"
        by simp
      from Cons.IH[OF this] Record False show ?thesis by simp
    next
      case True
      obtain e r1 d1 l1 where
        b: "bulk_insert rejects db (results @ [r]) n rr = (e, r1, d1, l1)"
        by (cases "bulk_insert rejects db (results @ [r]) n rr") auto
      obtain st ev1 d2 l2 where rn: "run rejects n rr d1 [] ps = (st, ev1, d2, l2)"
        by (cases "run rejects n rr d1 [] ps") auto
      from Cons.prems Record True b rn
      have e: "e = None" and st: "st = None"
        and ev: "ev = Flushed (results @ [r]) # map Yielded r1 @ ev1"
        by (auto split: option.splits)
      have m: "map data r1 = map data (results @ [r])" using bulk_insert_data[OF b] .
      note ih = Cons.IH[OF rn[unfolded st]]
      have f: "flush_then_yield (Flushed (results @ [r]) # map Yielded r1 @ ev1)"
        using m ih by (intro flush_block) simp_all
      show ?thesis
        unfolding ev using f m ih Record True
        by (simp add: yielded_append flushed_append yielded_map flushed_map)
    qed
  qed
qed










lemma task_exceptions_append:
  "task_exceptions (l1 @ l2) = task_exceptions l1 @ task_exceptions l2"
  by (induction l1 rule: task_exceptions.induct) simp_all

lemma bulk_insert_log:
  "bulk_insert rejects db results n rr = (e, results', db', l) \<Longrightarrow> task_exceptions l = []"
  by (auto simp: bulk_insert_def Let_def task_exceptions_append
           split: if_splits option.splits prod.splits)

lemma run_swallow_log:
  "run rejects n False db results ps = (st, ev, db', l) \<Longrightarrow> task_exceptions l = raised ps"
proof (induction ps arbitrary: db results st ev db' l)
  case Nil
  obtain e r1 d1 l1 where b: "bulk_insert rejects db results n False = (e, r1, d1, l1)"
    by (cases "bulk_insert rejects db results n False") auto
  with Nil bulk_insert_log[OF b] show ?case by (auto split: option.splits)
next
  case (Cons p ps)
  show ?case
  proof (cases p)
    case (Raised m)
    obtain st0 ev0 d0 l0 where r: "run rejects n False db results ps = (st0, ev0, d0, l0)"
      by (cases "run rejects n False db results ps") auto
    with Cons.prems Raised have "l = TaskException m # l0" by simp
    with Cons.IH[OF r] Raised show ?thesis by simp
  next
    case (Record r c)
    show ?thesis
    proof (cases c)
      case False
      with Cons.prems Record have "run rejects n False db (results @ [r]) ps = (st, ev, db', l)"
        by simp
      from Cons.IH[OF this] Record show ?thesis by simp
    next
      case True
      obtain e r1 d1 l1 where
        b: "bulk_insert rejects db (results @ [r]) n False = (e, r1, d1, l1)"
        by (cases "bulk_insert rejects db (results @ [r]) n False") auto
      have e: "e = None" using b by (rule bulk_insert_swallow)
      obtain st1 ev1 d2 l2 where rn: "run rejects n False d1 [] ps = (st1, ev1, d2, l2)"
        by (cases "run rejects n False d1 [] ps") auto
      have "l = l1 @ l2" using Cons.prems Record True b e rn by simp
      with Cons.IH[OF rn] bulk_insert_log[OF b] Record show ?thesis
        by (simp add: task_exceptions_append)
    qed
  qed
qed

lemma run_fail_fast:
  assumes "raised f1 = []"
  shows "\<exists>ev db' l. run accepts_all n True db results (f1 @ Raised m # f2)
                       = (Some (TaskError m), ev, db', l)
           \<and> task_exceptions l = [m]
           \<and> map data (yielded ev) @ map data (pending results f1)
               = map data (results @ produced f1)"
  using assms
proof (induction f1 arbitrary: db results)
  case Nil
  then show ?case by simp
next
  case (Cons p ps)
  show ?case
  proof (cases p)
    case (Raised m')
    with Cons.prems show ?thesis by simp
  next
    case (Record r c)
    with Cons.prems have nr: "raised ps = []" by simp
    show ?thesis
    proof (cases c)
      case False
      with Cons.IH[OF nr, of db "results @ [r]"] Record show ?thesis by simp
    next
      case True
      obtain e r1 d1 l1 where
        b: "bulk_insert accepts_all db (results @ [r]) n True = (e, r1, d1, l1)"
        by (cases "bulk_insert accepts_all db (results @ [r]) n True") auto
      have e: "e = None" using b by (rule bulk_insert_accepts)
      have m1: "map data r1 = map data (results @ [r])" using bulk_insert_data[OF b] .
      from Cons.IH[OF nr, of d1 "[]"] obtain ev1 d2 l2 where
        rn: "run accepts_all n True d1 [] (ps @ Raised m # f2) = (Some (TaskError m), ev1, d2, l2)"
        and lg: "task_exceptions l2 = [m]"
        and ys: "map data (yielded ev1) @ map data (pending [] ps) = map data ([] @ produced ps)"
        by auto
      have "run accepts_all n True db results ((p # ps) @ Raised m # f2)
              = (Some (TaskError m), Flushed (results @ [r]) # map Yielded r1 @ ev1, d2, l1 @ l2)"
        using Record True b e rn by simp
      moreover have "task_exceptions (l1 @ l2) = [m]"
        using lg bulk_insert_log[OF b] by (simp add: task_exceptions_append)
      moreover have "map data (yielded (Flushed (results @ [r]) # map Yielded r1 @ ev1))
                       @ map data (pending results (p # ps))
                     = map data (results @ produced (p # ps))"
        using ys m1 Record True by (simp add: yielded_append yielded_map)
      ultimately show ?thesis by blast
    qed
  qed
qed

lemma run_raises:
  "raised ps \<noteq> [] \<Longrightarrow> fst (run rejects n True db results ps) \<noteq> None"
proof (induction ps arbitrary: db results)
  case Nil
  then show ?case by simp
next
  case (Cons p ps)
  show ?case
  proof (cases p)
    case (Raised m)
    then show ?thesis by simp
  next
    case (Record r c)
    with Cons.prems have nr: "raised ps \<noteq> []" by simp
    show ?thesis
    proof (cases c)
      case False
      with Record Cons.IH[OF nr] show ?thesis by simp
    next
      case True
      obtain e r1 d1 l1 where
        b: "bulk_insert rejects db (results @ [r]) n True = (e, r1, d1, l1)"
        by (cases "bulk_insert rejects db (results @ [r]) n True") auto
      obtain st ev d l where rn: "run rejects n True d1 [] ps = (st, ev, d, l)"
        by (cases "run rejects n True d1 [] ps") auto
      with Cons.IH[OF nr, of d1 "[]"] have "st \<noteq> None" by simp
      with b rn Record True show ?thesis by (cases e) simp_all
    qed
  qed
qed


lemmas runner_eval =
  task_def bulk_insert_def model_create_def insert_row_def accepts_all_def rejects_b_def
  db_example_def fresh_def f_example_def f_raising_def enumerate_eq_zip chunked.simps Let_def


text \<open>
  Claim C7. With \<open>re_raise_exceptions=False\<close> the runner is not ended by the
  exceptions of the computation: each is logged, the records produced before
  and after them are all yielded, and the runner completes. With the flag left
  out (its default is \<open>True\<close>) a computation that raises ends the runner with an
  exception; when the table accepts every row this is the first exception of
  the computation, which is logged, the records yielded before are those up to
  the last checkpoint, and nothing after the exception is pulled.
\<close>

theorem task_exception_policy:
  "(case task rejects db (GeneratorFunction f) batch_size (Some False) of
      (st, ev, db', l) \<Rightarrow>
        st = None \<and> task_exceptions l = raised f
        \<and> map data (yielded ev) = map data (produced f))
   \<and> (raised f \<noteq> [] \<longrightarrow>
        fst (task rejects db (GeneratorFunction f) batch_size None) \<noteq> None)
   \<and> (raised f1 = [] \<longrightarrow>
        (case task accepts_all db (GeneratorFunction (f1 @ Raised m # f2)) batch_size None of
           (st, ev, db', l) \<Rightarrow>
             st = Some (TaskError m) \<and> task_exceptions l = [m]
             \<and> map data (yielded ev) @ map data (pending [] f1) = map data (produced f1)))"
proof (intro conjI impI)
  define n where "n = (case batch_size of None \<Rightarrow> 999 | Some n \<Rightarrow> (n::nat))"
  obtain st ev db' l where r: "run rejects n False db [] f = (st, ev, db', l)"
    by (cases "run rejects n False db [] f") auto
  have st: "st = None" using run_completes[of False rejects f n db "[]"] r by simp
  have "map data (yielded ev) = map data (produced f)"
    using run_events[OF r[unfolded st]] by simp
  moreover have "task_exceptions l = raised f" using r by (rule run_swallow_log)
  ultimately show "case task rejects db (GeneratorFunction f) batch_size (Some False) of
      (st, ev, db', l) \<Rightarrow>
        st = None \<and> task_exceptions l = raised f
        \<and> map data (yielded ev) = map data (produced f)"
    using r st by (simp add: task_def n_def)
next
  assume "raised f \<noteq> []"
  then show "fst (task rejects db (GeneratorFunction f) batch_size None) \<noteq> None"
    by (simp add: task_def run_raises)
next
  define n where "n = (case batch_size of None \<Rightarrow> 999 | Some n \<Rightarrow> (n::nat))"
  assume "raised f1 = []"
  from run_fail_fast[OF this, of n db "[]" m f2]
  show "case task accepts_all db (GeneratorFunction (f1 @ Raised m # f2)) batch_size None of
           (st, ev, db', l) \<Rightarrow>
             st = Some (TaskError m) \<and> task_exceptions l = [m]
             \<and> map data (yielded ev) @ map data (pending [] f1) = map data (produced f1)"
    by (auto simp: task_def n_def)
qed

text \<open>
  The computation a, checkpoint, b, exception, c: with the flag \<open>False\<close> a, b and
  c are yielded; with the default the runner ends with the exception after
  yielding a, and b is lost.
\<close>

theorem task_exception_policy_witness:
  "raised [Record (fresh ''a'') True, Record (fresh ''b'') False] = []
   \<and> f_raising = [Record (fresh ''a'') True, Record (fresh ''b'') False]
                   @ Raised ''boom'' # [Record (fresh ''c'') False]
   \<and> (case task accepts_all db_example (GeneratorFunction f_raising) (Some 2) (Some False) of
         (st, ev, db', l) \<Rightarrow>
           st = None \<and> task_exceptions l = [''boom'']
           \<and> map data (yielded ev) = [''a'', ''b'', ''c''])
   \<and> raised f_raising = [''boom'']
   \<and> (case task accepts_all db_example (GeneratorFunction f_raising) (Some 2) None of
         (st, ev, db', l) \<Rightarrow>
           st = Some (TaskError ''boom'') \<and> task_exceptions l = [''boom'']
           \<and> map data (yielded ev) = [''a''])"
  using task_exception_policy
          [where rejects = accepts_all and db = db_example and f = f_raising
             and batch_size = "Some 2"
             and ?f1.0 = "[Record (fresh ''a'') True, Record (fresh ''b'') False]"
             and m = "''boom''" and ?f2.0 = "[Record (fresh ''c'') False]"]
  by (simp add: runner_eval)

end
